theory Spec2Isabelle
  imports Complex_Main "HOL-Library.Sublist"
begin

section \<open>Python values used by http\_server.py\<close>

text \<open>
  A Python \<open>str\<close> is modelled as a \<open>string\<close> whose characters are the code points
  below 256; a \<open>bytes\<close> object is a \<open>string\<close> whose characters are the bytes. The
  character classes \<open>str.isspace\<close>, \<open>str.isnumeric\<close> and the digits accepted by
  \<open>int()\<close> are given exactly on that range. Exceptions are values of \<open>pyexn\<close>; a
  function that can raise returns \<open>pyexn + 'a\<close>.
\<close>

datatype pyexn = ValueError | OverflowError | ZeroDivisionError | KeyError | OSError

definition CRLF :: string where
  "CRLF = [CHR 0x0D, CHR 0x0A]"

definition code_point :: "char \<Rightarrow> nat" where
  "code_point c = of_char c"

definition isspace :: "char \<Rightarrow> bool" where
  \<comment> \<open>\<open>str.isspace\<close>, the separators of \<open>str.split()\<close>: TAB..CR, FS..US, space, NEL, NBSP.\<close>
  "isspace c =
     (let n = code_point c
      in (9 \<le> n \<and> n \<le> 13) \<or> (28 \<le> n \<and> n \<le> 32) \<or> n = 133 \<or> n = 160)"

fun split_ws_aux :: "string \<Rightarrow> string \<Rightarrow> string list" where
  "split_ws_aux cur [] = (if cur = [] then [] else [rev cur])"
| "split_ws_aux cur (c # s) =
     (if isspace c then (if cur = [] then [] else [rev cur]) @ split_ws_aux [] s
      else split_ws_aux (c # cur) s)"

definition py_split_ws :: "string \<Rightarrow> string list" where
  \<comment> \<open>\<open>s.split()\<close>: the maximal runs of non-whitespace characters, in order.\<close>
  "py_split_ws s = split_ws_aux [] s"

fun split_aux :: "string \<Rightarrow> string \<Rightarrow> string \<Rightarrow> string list" where
  "split_aux sep cur [] = [rev cur]"
| "split_aux sep cur (c # s) =
     (if prefix sep (c # s) then rev cur # split_aux sep [] (drop (length sep - 1) s)
      else split_aux sep (c # cur) s)"

definition py_split :: "string \<Rightarrow> string \<Rightarrow> string list" where
  \<comment> \<open>\<open>s.split(sep)\<close> for a non-empty \<open>sep\<close> (every separator of the source is a
      non-empty literal): cut at the non-overlapping occurrences found left to right.
      The result is never empty, so \<open>[0]\<close> and \<open>[-1]\<close> never raise.\<close>
  "py_split sep s = split_aux sep [] s"

definition py_strip :: "string \<Rightarrow> string \<Rightarrow> string" where
  \<comment> \<open>\<open>s.strip(chars)\<close>: drop every leading and trailing character that is in \<open>chars\<close>.\<close>
  "py_strip chars s =
     rev (dropWhile (\<lambda>c. c \<in> set chars) (rev (dropWhile (\<lambda>c. c \<in> set chars) s)))"

definition startswith :: "string \<Rightarrow> string \<Rightarrow> bool" where
  "startswith s p = prefix p s"

definition endswith :: "string \<Rightarrow> string \<Rightarrow> bool" where
  "endswith s p = suffix p s"

definition contains :: "string \<Rightarrow> string \<Rightarrow> bool" where
  \<comment> \<open>\<open>sub in s\<close>\<close>
  "contains sub s = sublist sub s"

definition encode_char :: "char \<Rightarrow> string" where
  "encode_char c =
     (let n = code_point c
      in if n < 128 then [c] else [char_of (192 + n div 64), char_of (128 + n mod 64)])"

definition encode :: "string \<Rightarrow> string" where
  \<comment> \<open>\<open>s.encode()\<close>: UTF-8.\<close>
  "encode s = concat (map encode_char s)"

definition digit_char :: "nat \<Rightarrow> char" where
  "digit_char d = char_of (48 + d)"

fun str_nat :: "nat \<Rightarrow> string" where
  "str_nat n = (if n < 10 then [digit_char n] else str_nat (n div 10) @ [digit_char (n mod 10)])"

declare str_nat.simps [simp del]

definition isdecimal_char :: "char \<Rightarrow> bool" where
  "isdecimal_char c = (48 \<le> code_point c \<and> code_point c \<le> 57)"

definition isnumeric_char :: "char \<Rightarrow> bool" where
  \<comment> \<open>Numeric\_Type Decimal, Digit or Numeric: the ASCII digits, superscript two, three
      and one, and the fractions one quarter, one half, three quarters.\<close>
  "isnumeric_char c =
     (let n = code_point c
      in (48 \<le> n \<and> n \<le> 57) \<or> n = 178 \<or> n = 179 \<or> n = 185 \<or> (188 \<le> n \<and> n \<le> 190))"

definition isnumeric :: "string \<Rightarrow> bool" where
  "isnumeric s = (s \<noteq> [] \<and> list_all isnumeric_char s)"

definition int_space :: "char \<Rightarrow> bool" where
  \<comment> \<open>the whitespace \<open>int()\<close> skips around a literal\<close>
  "int_space c =
     (let n = code_point c in (9 \<le> n \<and> n \<le> 13) \<or> n = 32 \<or> n = 133 \<or> n = 160)"

fun well_grouped :: "string \<Rightarrow> bool" where
  "well_grouped [] = False"
| "well_grouped [c] = isdecimal_char c"
| "well_grouped (c # d # s) =
     (isdecimal_char c \<and> (if d = CHR ''_'' then well_grouped s else well_grouped (d # s)))"

fun digits_value :: "int \<Rightarrow> string \<Rightarrow> int" where
  "digits_value acc [] = acc"
| "digits_value acc (c # s) = digits_value (10 * acc + (int (code_point c) - 48)) s"

definition py_int :: "string \<Rightarrow> pyexn + int" where
  \<comment> \<open>\<open>int(s)\<close>: surrounding whitespace, an optional sign, decimal digits with single
      underscores between them; anything else raises ValueError.\<close>
  "py_int s =
     (let t = rev (dropWhile int_space (rev (dropWhile int_space s)));
          neg = (t \<noteq> [] \<and> hd t = CHR ''-'');
          u = (if t \<noteq> [] \<and> (hd t = CHR ''-'' \<or> hd t = CHR ''+'') then tl t else t)
      in if well_grouped u
         then Inr ((if neg then - 1 else 1) * digits_value 0 (filter (\<lambda>c. c \<noteq> CHR ''_'') u))
         else Inl ValueError)"

subsection \<open>True division of ints and the \<open>str\<close> of a float\<close>

text \<open>
  A finite binary64 value is \<open>PyFloat s m e\<close>: sign \<open>s\<close>, value \<open>m * 2 ^ e\<close> with
  \<open>m < 2 ^ 53\<close> and \<open>- 1074 \<le> e \<le> 971\<close>. \<open>a / b\<close> on ints is the quotient rounded once,
  to nearest with ties to even; it raises OverflowError when that is beyond the largest
  float. \<open>str\<close> of a float is the shortest decimal string that reads back as the same
  float (the nearest to it when several do), written with an exponent when the decimal
  point would stand after more than 16 digits or before more than 3 zeros.
\<close>

datatype pyfloat = PyFloat (negative: bool) (mantissa: nat) (exponent: int)

definition pow2 :: "int \<Rightarrow> rat" where
  "pow2 e = (if 0 \<le> e then 2 ^ nat e else 1 / 2 ^ nat (- e))"

definition pow10 :: "int \<Rightarrow> rat" where
  "pow10 k = (if 0 \<le> k then 10 ^ nat k else 1 / 10 ^ nat (- k))"

fun bit_length :: "nat \<Rightarrow> nat" where
  "bit_length n = (if n = 0 then 0 else Suc (bit_length (n div 2)))"

declare bit_length.simps [simp del]

definition round_half_even :: "nat \<Rightarrow> nat \<Rightarrow> nat" where
  "round_half_even n d =
     (let f = n div d; r = n mod d
      in if 2 * r < d then f
         else if d < 2 * r then f + 1
         else if even f then f else f + 1)"

definition binary_exponent :: "nat \<Rightarrow> nat \<Rightarrow> int" where
  \<comment> \<open>the \<open>E\<close> with \<open>2 ^ E \<le> a / b < 2 ^ (E + 1)\<close>, for positive \<open>a\<close> and \<open>b\<close>\<close>
  "binary_exponent a b =
     (let d = int (bit_length a) - int (bit_length b)
      in if (if 0 \<le> d then b * 2 ^ nat d \<le> a else b \<le> a * 2 ^ nat (- d)) then d else d - 1)"

definition int_truediv :: "int \<Rightarrow> int \<Rightarrow> pyexn + pyfloat" where
  "int_truediv a b =
     (if b = 0 then Inl ZeroDivisionError
      else if a = 0 then Inr (PyFloat (b < 0) 0 0)
      else
        let neg = ((a < 0) \<noteq> (b < 0));
            n = nat \<bar>a\<bar>; d = nat \<bar>b\<bar>;
            e = max (binary_exponent n d - 52) (- 1074);
            m = round_half_even (n * 2 ^ nat (- e)) (d * 2 ^ nat e);
            e' = (if m = 2 ^ 53 then e + 1 else e);
            m' = (if m = 2 ^ 53 then 2 ^ 52 else m)
        in if 971 < e' then Inl OverflowError else Inr (PyFloat neg m' e'))"

definition decimal_point :: "rat \<Rightarrow> int" where
  \<comment> \<open>the \<open>p\<close> with \<open>10 ^ (p - 1) \<le> x < 10 ^ p\<close>, for a positive float value \<open>x\<close>\<close>
  "decimal_point x =
     (if 1 \<le> x then int (length (str_nat (nat \<lfloor>x\<rfloor>)))
      else 1 - int (length (str_nat (nat \<lfloor>1 / x\<rfloor>))))"

definition rounds_to :: "nat \<Rightarrow> int \<Rightarrow> rat \<Rightarrow> bool" where
  \<comment> \<open>the decimal \<open>c\<close> reads back as the float \<open>m * 2 ^ e\<close>: it is at most half a gap away
      from it, the ends included when \<open>m\<close> is even\<close>
  "rounds_to m e c =
     (let x = of_nat m * pow2 e;
          up = pow2 (e - 1);
          down = (if m = 2 ^ 52 \<and> - 1074 < e then pow2 (e - 2) else pow2 (e - 1))
      in if even m then x - down \<le> c \<and> c \<le> x + up else x - down < c \<and> c < x + up)"

definition digits_at :: "nat \<Rightarrow> int \<Rightarrow> int \<Rightarrow> nat \<Rightarrow> nat option" where
  \<comment> \<open>the \<open>n\<close>-digit decimal \<open>d * 10 ^ (p - n)\<close> nearest to the float among those that
      read back as it, if there is one\<close>
  "digits_at m e p n =
     (let x = of_nat m * pow2 e;
          s = pow10 (p - int n);
          lo = nat \<lfloor>x / s\<rfloor>;
          hi = lo + 1;
          ok_lo = rounds_to m e (of_nat lo * s);
          ok_hi = rounds_to m e (of_nat hi * s)
      in if ok_lo \<and> ok_hi then
           (if x - of_nat lo * s < of_nat hi * s - x then Some lo
            else if of_nat hi * s - x < x - of_nat lo * s then Some hi
            else if even lo then Some lo else Some hi)
         else if ok_lo then Some lo
         else if ok_hi then Some hi
         else None)"

fun shortest_digits :: "nat \<Rightarrow> int \<Rightarrow> int \<Rightarrow> nat \<Rightarrow> nat \<Rightarrow> nat \<times> int" where
  \<comment> \<open>tries 1, 2, ... digits; 17 digits always suffice for a binary64 value\<close>
  "shortest_digits m e p n 0 = (nat \<lfloor>of_nat m * pow2 e / pow10 (p - int n)\<rfloor>, p - int n)"
| "shortest_digits m e p n (Suc fuel) =
     (case digits_at m e p n of
        Some d \<Rightarrow> (d, p - int n)
      | None \<Rightarrow> shortest_digits m e p (n + 1) fuel)"

definition strip_zeros :: "string \<Rightarrow> string" where
  "strip_zeros s = rev (dropWhile (\<lambda>c. c = CHR ''0'') (rev s))"

definition format_repr :: "string \<Rightarrow> int \<Rightarrow> string" where
  \<comment> \<open>the digits \<open>full\<close> with the decimal point after the first \<open>decpt\<close> of them: that is,
      the value \<open>0.full * 10 ^ decpt\<close>\<close>
  "format_repr full decpt =
     (let ds = strip_zeros full
      in if decpt \<le> - 4 \<or> 16 < decpt then
           (let ex = str_nat (nat \<bar>decpt - 1\<bar>)
            in [hd ds] @ (if tl ds = [] then [] else ''.'' @ tl ds) @ ''e'' @
               (if decpt - 1 < 0 then ''-'' else ''+'') @
               (if length ex < 2 then ''0'' @ ex else ex))
         else if decpt \<le> 0 then ''0.'' @ replicate (nat (- decpt)) CHR ''0'' @ ds
         else if length ds \<le> nat decpt then
           ds @ replicate (nat decpt - length ds) CHR ''0'' @ ''.0''
         else take (nat decpt) ds @ ''.'' @ drop (nat decpt) ds)"

definition float_str :: "pyfloat \<Rightarrow> string" where
  "float_str x =
     (if negative x then ''-'' else []) @
     (if mantissa x = 0 then ''0.0''
      else
        let m = mantissa x; e = exponent x;
            (d, k) = shortest_digits m e (decimal_point (of_nat m * pow2 e)) 1 17;
            full = str_nat d
        in format_repr full (int (length full) + k))"

section \<open>The server\<close>

text \<open>
  What the server reads from outside is the record \<open>env\<close>: \<open>os.path.isfile\<close>, the
  content \<open>open(path, 'rb').read()\<close> returns (\<open>None\<close> when it raises), and the
  formatted current time. A client socket is the list of the byte strings handed to
  \<open>sendall\<close> so far.
\<close>

record env =
  isfile :: "string \<Rightarrow> bool"
  file_data :: "string \<Rightarrow> string option"
  now :: string

type_synonym socket = "string list"

definition sendall :: "socket \<Rightarrow> string \<Rightarrow> socket" where
  "sendall client_socket bytes = client_socket @ [bytes]"

definition subscript :: "('k \<rightharpoonup> 'v) \<Rightarrow> 'k \<Rightarrow> pyexn + 'v" where
  \<comment> \<open>\<open>d[k]\<close>\<close>
  "subscript d k = (case d k of None \<Rightarrow> Inl KeyError | Some v \<Rightarrow> Inr v)"

definition CLOSE_SERVER_STATUS_CODE :: int where
  "CLOSE_SERVER_STATUS_CODE = 1"

definition DEFAULT_URL :: string where
  "DEFAULT_URL = ''webroot/index.html''"

definition REDIRECTION_DICTIONARY :: "string \<rightharpoonup> string" where
  "REDIRECTION_DICTIONARY = map_of
     [(''webroot/home.html'', ''webroot/index.html''),
      (''home'', ''webroot/index.html''),
      (''home.html'', ''webroot/index.html''),
      (''webroot/home'', ''webroot/index.html'')]"

definition STATUS_CODE :: "int \<rightharpoonup> string" where
  "STATUS_CODE = map_of
     [(200, ''HTTP/1.1 200 OK'' @ CRLF),
      (404, ''HTTP/1.1 404 Not Found'' @ CRLF),
      (302, ''HTTP/1.1 302 Moved Temporarily'' @ CRLF),
      (500, ''HTTP/1.1 500 Internal Server Error'' @ CRLF)]"

definition validate_http_request :: "string \<Rightarrow> bool \<times> string" where
  "validate_http_request request =
     (let first_line = hd (py_split CRLF request)
      in if \<not> startswith first_line ''GET'' then (False, [])
         else
           let split_request = py_split_ws first_line
           in if length split_request \<noteq> 3 then (False, [])
              else if \<not> contains ''HTTP'' (split_request ! 2) then (False, [])
              else (True, split_request ! 1))"

definition get_file_data :: "env \<Rightarrow> string \<Rightarrow> pyexn + string" where
  "get_file_data world filename =
     (case file_data world filename of None \<Rightarrow> Inl OSError | Some d \<Rightarrow> Inr d)"

definition get_http_header :: "env \<Rightarrow> nat \<Rightarrow> string \<Rightarrow> string" where
  "get_http_header world content_length url =
     (let http_header = ''Date: '' @ now world @ CRLF @
                        ''Content-Length: '' @ str_nat content_length @ CRLF;
          accept_bytes = ''Accept-Ranges: bytes'' @ CRLF @ CRLF;
          file_type = (if url = [] then ''html'' else last (py_split ''.'' url))
      in if file_type = ''html'' \<or> file_type = ''txt''
           then http_header @ ''Content-Type: text/html'' @ CRLF @ CRLF
         else if file_type = ''css''
           then http_header @ ''Content-Type: text/css'' @ CRLF @ CRLF
         else if file_type = ''js''
           then http_header @ ''Content-Type: text/javascript'' @ CRLF @ CRLF
         else if file_type = ''jpg''
           then http_header @ ''Content-Type: image/jpeg'' @ CRLF @ accept_bytes
         else if file_type = ''png''
           then http_header @ ''Content-Type: image/png'' @ CRLF @ accept_bytes
         else if file_type = ''ico''
           then http_header @ ''Content-Type: image/icon'' @ CRLF @ accept_bytes
         else if file_type = ''gif''
           then http_header @ ''Content-Type: image/gif'' @ CRLF @ accept_bytes
         else http_header)"

definition not_found :: "env \<Rightarrow> socket \<Rightarrow> pyexn + socket \<times> int" where
  "not_found world client_socket =
     (let massage = ''404 Not Found'' @ CRLF
      in case subscript STATUS_CODE 404 of
           Inl ex \<Rightarrow> Inl ex
         | Inr status \<Rightarrow>
             let http_response = status @ get_http_header world (length massage) [] @ massage
             in Inr (sendall client_socket (encode http_response), 404))"

definition ok :: "env \<Rightarrow> socket \<Rightarrow> string \<Rightarrow> string \<Rightarrow> pyexn + socket \<times> int" where
  \<comment> \<open>\<open>ok(client_socket, data, url)\<close>\<close>
  "ok world client_socket data0 url =
     (case (if url \<noteq> [] \<and> data0 = [] then get_file_data world url else Inr data0) of
        Inl ex \<Rightarrow> Inl ex
      | Inr data \<Rightarrow>
          let http_header = get_http_header world (length data) url
          in (case subscript STATUS_CODE 200 of
                Inl ex \<Rightarrow> Inl ex
              | Inr status \<Rightarrow>
                  let http_response = status @ http_header
                  in Inr (sendall client_socket (encode http_response @ data), 200)))"

definition moved_temporarily :: "env \<Rightarrow> socket \<Rightarrow> string \<Rightarrow> pyexn + socket \<times> int" where
  "moved_temporarily world client_socket url =
     (case subscript REDIRECTION_DICTIONARY url of
        Inl ex \<Rightarrow> Inl ex
      | Inr target \<Rightarrow>
          if \<not> isfile world target then not_found world client_socket
          else
            (case get_file_data world target of
               Inl ex \<Rightarrow> Inl ex
             | Inr data \<Rightarrow>
                 let location = ''Location: http://'' @ target @ CRLF;
                     http_header = get_http_header world (length data) target
                 in (case subscript STATUS_CODE 302 of
                       Inl ex \<Rightarrow> Inl ex
                     | Inr status \<Rightarrow>
                         let http_response = status @ location @ http_header
                         in Inr (sendall client_socket (encode http_response @ data), 302))))"

definition internal_server_error :: "env \<Rightarrow> socket \<Rightarrow> string \<Rightarrow> pyexn + socket \<times> int" where
  "internal_server_error world client_socket message =
     (case subscript STATUS_CODE 500 of
        Inl ex \<Rightarrow> Inl ex
      | Inr status \<Rightarrow>
          let http_response = status @ get_http_header world (length message) [] @ message
          in Inr (sendall client_socket (encode http_response), 500))"

definition calculate_area :: "env \<Rightarrow> socket \<Rightarrow> string \<Rightarrow> pyexn + socket \<times> int" where
  "calculate_area world client_socket request =
     (let parameters = py_split ''&'' (last (py_split ''?'' request))
      in if \<not> length parameters = 2
         then internal_server_error world client_socket
                (''Many or less parameters, expected 2, got '' @ str_nat (length parameters))
         else
           let height = last (py_split ''='' (parameters ! 0));
               width = last (py_split ''='' (parameters ! 1))
           in if \<not> isnumeric height \<or> \<not> isnumeric width
              then internal_server_error world client_socket
                     ''Not numeric value for height or width''
              else
                (case py_int height of
                   Inl ex \<Rightarrow> Inl ex
                 | Inr h \<Rightarrow>
                    (case py_int width of
                       Inl ex \<Rightarrow> Inl ex
                     | Inr w \<Rightarrow>
                         (case int_truediv (h * w) 2 of
                            Inl ex \<Rightarrow> Inl ex
                          | Inr q \<Rightarrow>
                              let area = float_str q;
                                  area = (if endswith area ''.0''
                                          then take (length area - 2) area else area)
                              in ok world client_socket (encode area) []))))"

definition normalized_url :: "string \<Rightarrow> string" where
  \<comment> \<open>the first statement of \<open>handle_client_request\<close>:
      \<open>url = DEFAULT_URL if resource == '' or resource == '/' else resource.strip('/')\<close>\<close>
  "normalized_url resource =
     (if resource = [] \<or> resource = ''/'' then DEFAULT_URL else py_strip ''/'' resource)"

definition with_webroot :: "string \<Rightarrow> string" where
  \<comment> \<open>\<open>if not url.startswith('webroot/'): url = 'webroot/' + url\<close>\<close>
  "with_webroot url = (if \<not> startswith url ''webroot/'' then ''webroot/'' @ url else url)"

definition handle_client_request :: "env \<Rightarrow> string \<Rightarrow> socket \<Rightarrow> pyexn + socket \<times> int" where
  "handle_client_request world resource client_socket =
     (let url = normalized_url resource
      in if endswith url ''exit'' then Inr (client_socket, CLOSE_SERVER_STATUS_CODE)
         else
           let url = with_webroot url
           in if REDIRECTION_DICTIONARY url \<noteq> None
              then moved_temporarily world client_socket url
              else
                let server_function = last (py_split ''/'' url)
                in if contains ''calculate-area'' server_function
                   then calculate_area world client_socket server_function
                   else if \<not> isfile world url then not_found world client_socket
                   else ok world client_socket [] url)"

subsection \<open>Reference points for the statements below\<close>

definition spec_strip_one_slash :: "string \<Rightarrow> string" where
  \<comment> \<open>the normalization as the specification words it: exactly one leading \<open>/\<close> is
      removed, further leading and all trailing ones are kept\<close>
  "spec_strip_one_slash target =
     (if target \<noteq> [] \<and> hd target = CHR ''/'' then tl target else target)"

definition exact_half :: "nat \<Rightarrow> string" where
  \<comment> \<open>the exact decimal rendering of \<open>n / 2\<close>: no fractional part when it is whole\<close>
  "exact_half n = (if even n then str_nat (n div 2) else str_nat (n div 2) @ ''.5'')"


definition bare_host :: env where
  \<comment> \<open>a host on which no file exists\<close>
  "bare_host =
     \<lparr>isfile = (\<lambda>path. False), file_data = (\<lambda>path. None),
      now = ''Thu, 01 Jan 2026 00:00:00 GMT''\<rparr>"

definition small_site :: env where
  \<comment> \<open>a host with the home document and one file without extension\<close>
  "small_site =
     \<lparr>isfile = (\<lambda>path. path = ''webroot/index.html'' \<or> path = ''webroot/notes''),
      file_data = (\<lambda>path. if path = ''webroot/index.html'' then Some ''<html></html>''
                          else if path = ''webroot/notes'' then Some ''hello'' else None),
      now = ''Thu, 01 Jan 2026 00:00:00 GMT''\<rparr>"

section \<open>Request parser\<close>


lemma split_aux_not_Nil: "split_aux sep cur s \<noteq> []"
  by (induction sep cur s rule: split_aux.induct) auto

lemma split_aux_no_cr:
  "CHR 0x0D \<notin> set l \<Longrightarrow> split_aux CRLF cur l = [rev cur @ l]"
  by (induction l arbitrary: cur) (auto simp: CRLF_def)

lemma hd_split_aux_crlf:
  "CHR 0x0D \<notin> set l \<Longrightarrow> hd (split_aux CRLF cur (l @ CRLF @ rest)) = rev cur @ l"
  by (induction l arbitrary: cur) (auto simp: CRLF_def)

lemma split_ws_aux_token:
  "list_all (\<lambda>c. \<not> isspace c) p \<Longrightarrow> split_ws_aux cur (p @ s) = split_ws_aux (rev p @ cur) s"
  by (induction p arbitrary: cur) auto

lemma isspace_cr: "isspace (CHR 0x0D)"
  by (simp add: isspace_def code_point_def)

lemma no_space_no_cr: "list_all (\<lambda>c. \<not> isspace c) p \<Longrightarrow> CHR 0x0D \<notin> set p"
  using isspace_cr by (auto simp: list_all_iff)

lemma get_line_tokens:
  assumes "p \<noteq> []" and "list_all (\<lambda>c. \<not> isspace c) p"
  shows "py_split_ws (''GET '' @ p @ '' HTTP/1.1'') = [''GET'', p, ''HTTP/1.1'']"
proof -
  have "split_ws_aux [] (p @ '' HTTP/1.1'') = split_ws_aux (rev p) '' HTTP/1.1''"
    using split_ws_aux_token [OF assms(2), of "[]"] by simp
  with assms(1) show ?thesis
    by (simp add: py_split_ws_def isspace_def code_point_def)
qed

lemma validate_http_request_no_path:
  "py_split_ws ''GET  HTTP/1.1'' = [''GET'', ''HTTP/1.1''] \<and>
   validate_http_request ''GET  HTTP/1.1'' = (False, [])"
  by (simp add: validate_http_request_def py_split_def py_split_ws_def startswith_def
      CRLF_def isspace_def code_point_def)

text \<open>
  C7. For every path \<open>p\<close> without whitespace, the request line \<open>GET p HTTP/1.1\<close>, alone
  or followed by CRLF and anything else, is accepted: its tokens are the method
  \<open>GET\<close>, the target \<open>p\<close> and the version, and the returned target is \<open>p\<close>, unchanged,
  query string included. A path is a token of the line, hence not empty.
\<close>

theorem validate_http_request_get_line:
  assumes "p \<noteq> []" and "list_all (\<lambda>c. \<not> isspace c) p"
  shows "validate_http_request (''GET '' @ p @ '' HTTP/1.1'') = (True, p) \<and>
         validate_http_request (''GET '' @ p @ '' HTTP/1.1'' @ CRLF @ rest) = (True, p) \<and>
         py_split_ws (hd (py_split CRLF (''GET '' @ p @ '' HTTP/1.1''))) =
           [''GET'', p, ''HTTP/1.1''] \<and>
         py_split_ws (hd (py_split CRLF (''GET '' @ p @ '' HTTP/1.1'' @ CRLF @ rest))) =
           [''GET'', p, ''HTTP/1.1'']"
proof -
  let ?l = "''GET '' @ p @ '' HTTP/1.1''"
  have cr: "CHR 0x0D \<notin> set ?l"
    using no_space_no_cr [OF assms(2)] by simp
  have l1: "hd (py_split CRLF ?l) = ?l"
    using split_aux_no_cr [OF cr, of "[]"] by (simp add: py_split_def)
  have l2: "hd (py_split CRLF (?l @ CRLF @ rest)) = ?l"
    using hd_split_aux_crlf [OF cr, of "[]" rest] by (simp add: py_split_def)
  have tok: "py_split_ws ?l = [''GET'', p, ''HTTP/1.1'']"
    by (rule get_line_tokens [OF assms])
  have v: "hd (py_split CRLF r) = ?l \<Longrightarrow> validate_http_request r = (True, p)" for r
    using tok by (simp add: validate_http_request_def startswith_def contains_def Let_def)
  have t1: "py_split_ws (hd (py_split CRLF ?l)) = [''GET'', p, ''HTTP/1.1'']"
    unfolding l1 by (rule tok)
  have t2: "py_split_ws (hd (py_split CRLF (?l @ CRLF @ rest))) = [''GET'', p, ''HTTP/1.1'']"
    unfolding l2 by (rule tok)
  have a: "validate_http_request ?l = (True, p)" by (rule v [OF l1])
  have b: "validate_http_request (?l @ CRLF @ rest) = (True, p)" by (rule v [OF l2])
  from a b t1 t2 show ?thesis by simp
qed

theorem validate_http_request_get_line_witness:
  "''/a?x=1'' \<noteq> [] \<and> list_all (\<lambda>c. \<not> isspace c) ''/a?x=1'' \<and>
   validate_http_request (''GET '' @ ''/a?x=1'' @ '' HTTP/1.1'' @ CRLF @ CRLF) = (True, ''/a?x=1'') \<and>
   py_split_ws (hd (py_split CRLF (''GET '' @ ''/a?x=1'' @ '' HTTP/1.1'' @ CRLF @ CRLF))) =
     [''GET'', ''/a?x=1'', ''HTTP/1.1'']"
  using validate_http_request_get_line [of "''/a?x=1''" CRLF]
  by (simp add: isspace_def code_point_def)

text \<open>
  C1. The parser accepts a request line whose first token is \<open>GETX\<close>: the method is
  tested with \<open>startswith('GET')\<close> on the line, not by comparing the first token.
\<close>

theorem validate_http_request_accepts_getx:
  "py_split_ws ''GETX /index.html HTTP/1.1'' = [''GETX'', ''/index.html'', ''HTTP/1.1''] \<and>
   validate_http_request (''GETX /index.html HTTP/1.1'' @ CRLF @ CRLF) = (True, ''/index.html'')"
  by (simp add: validate_http_request_def py_split_def py_split_ws_def startswith_def
      contains_def CRLF_def isspace_def code_point_def)

section \<open>Router\<close>


lemma last_split_aux_suffix: "suffix (last (split_aux sep cur s)) (rev cur @ s)"
proof (induction sep cur s rule: split_aux.induct)
  case (1 sep cur)
  then show ?case by simp
next
  case (2 sep cur c s)
  show ?case
  proof (cases "prefix sep (c # s)")
    case True
    have "suffix (last (split_aux sep [] (drop (length sep - 1) s))) (drop (length sep - 1) s)"
      using 2(1) [OF True] by simp
    then have "suffix (last (split_aux sep [] (drop (length sep - 1) s))) (rev cur @ c # s)"
      by (meson suffix_drop suffix_order.trans suffix_Cons suffix_appendI)
    with True show ?thesis by (simp add: split_aux_not_Nil)
  next
    case False
    with 2(2) [OF False] show ?thesis by simp
  qed
qed

lemma last_py_split_suffix: "suffix (last (py_split sep s)) s"
  using last_split_aux_suffix [of sep "[]" s] by (simp add: py_split_def)

lemma not_found_eq:
  "not_found world sock =
     Inr (sendall sock (encode (''HTTP/1.1 404 Not Found'' @ CRLF @ get_http_header world 15 [] @
        ''404 Not Found'' @ CRLF)), 404)"
  by (simp add: not_found_def subscript_def STATUS_CODE_def CRLF_def eval_nat_numeral)

lemma internal_server_error_eq:
  "internal_server_error world sock message =
     Inr (sendall sock (encode (''HTTP/1.1 500 Internal Server Error'' @ CRLF @
        get_http_header world (length message) [] @ message)), 500)"
  by (simp add: internal_server_error_def subscript_def STATUS_CODE_def)

lemma ok_eq:
  "ok world sock data0 url =
     (case (if url \<noteq> [] \<and> data0 = [] then get_file_data world url else Inr data0) of
        Inl ex \<Rightarrow> Inl ex
      | Inr data \<Rightarrow> Inr (sendall sock (encode (''HTTP/1.1 200 OK'' @ CRLF @
           get_http_header world (length data) url) @ data), 200))"
  by (simp add: ok_def subscript_def STATUS_CODE_def split: sum.splits)

lemma moved_temporarily_eq:
  "moved_temporarily world sock url =
     (case REDIRECTION_DICTIONARY url of
        None \<Rightarrow> Inl KeyError
      | Some target \<Rightarrow>
          if \<not> isfile world target then not_found world sock
          else (case get_file_data world target of
                  Inl ex \<Rightarrow> Inl ex
                | Inr data \<Rightarrow> Inr (sendall sock (encode (''HTTP/1.1 302 Moved Temporarily'' @ CRLF @
                    ''Location: http://'' @ target @ CRLF @
                    get_http_header world (length data) target) @ data), 302)))"
  by (simp add: moved_temporarily_def subscript_def STATUS_CODE_def split: sum.splits option.splits)

lemma ok_code: "ok world sock data0 url = Inr (sock', rc) \<Longrightarrow> rc = 200"
  by (auto simp: ok_eq split: sum.splits if_splits)

lemma moved_temporarily_code:
  "moved_temporarily world sock url = Inr (sock', rc) \<Longrightarrow> rc = 302 \<or> rc = 404"
  by (auto simp: moved_temporarily_eq not_found_eq split: sum.splits if_splits option.splits)

lemma calculate_area_code:
  "calculate_area world sock request = Inr (sock', rc) \<Longrightarrow> rc = 200 \<or> rc = 500"
  by (auto simp: calculate_area_def internal_server_error_eq Let_def
      split: sum.splits if_splits dest: ok_code)

lemma handle_client_request_code:
  assumes "handle_client_request world resource sock = Inr (sock', rc)"
    and "\<not> endswith (normalized_url resource) ''exit''"
  shows "rc = 200 \<or> rc = 302 \<or> rc = 404 \<or> rc = 500"
  using assms
  by (auto simp: handle_client_request_def not_found_eq Let_def
      split: if_splits dest: ok_code moved_temporarily_code calculate_area_code)

text \<open>
  C3 (as amended). The router returns the close-server code exactly when the normalized
  path ends with the characters \<open>exit\<close>; it then sends nothing. In particular it does so
  whenever the final segment of the normalized path is \<open>exit\<close>. The test comes before the
  prefixing and the redirect table, so it holds for every target, prefixed or not.
\<close>

theorem terminate_iff_exit_suffix:
  "((\<exists>sock'. handle_client_request world resource sock = Inr (sock', CLOSE_SERVER_STATUS_CODE))
      \<longleftrightarrow> endswith (normalized_url resource) ''exit'') \<and>
   (endswith (normalized_url resource) ''exit'' \<longrightarrow>
      handle_client_request world resource sock = Inr (sock, CLOSE_SERVER_STATUS_CODE)) \<and>
   (last (py_split ''/'' (normalized_url resource)) = ''exit'' \<longrightarrow>
      handle_client_request world resource sock = Inr (sock, CLOSE_SERVER_STATUS_CODE))"
proof -
  have a: "handle_client_request world resource sock = Inr (sock, CLOSE_SERVER_STATUS_CODE)"
    if "endswith (normalized_url resource) ''exit''"
    using that by (simp add: handle_client_request_def)
  have b: "endswith (normalized_url resource) ''exit''"
    if "handle_client_request world resource sock = Inr (sock', CLOSE_SERVER_STATUS_CODE)" for sock'
  proof (rule ccontr)
    assume "\<not> endswith (normalized_url resource) ''exit''"
    from handle_client_request_code [OF that this] show False
      by (simp add: CLOSE_SERVER_STATUS_CODE_def)
  qed
  have c: "endswith (normalized_url resource) ''exit''"
    if "last (py_split ''/'' (normalized_url resource)) = ''exit''"
    using last_py_split_suffix [of "''/''" "normalized_url resource"] that
    by (simp add: endswith_def)
  show ?thesis using a b c by blast
qed

theorem terminate_iff_exit_suffix_witness:
  "endswith (normalized_url ''/webroot/exit'') ''exit'' \<and>
   last (py_split ''/'' (normalized_url ''/webroot/exit'')) = ''exit'' \<and>
   handle_client_request bare_host ''/webroot/exit'' [] = Inr ([], CLOSE_SERVER_STATUS_CODE) \<and>
   handle_client_request bare_host ''/exit'' [] = Inr ([], CLOSE_SERVER_STATUS_CODE)"
  using terminate_iff_exit_suffix [of bare_host "''/webroot/exit''" "[]"]
    terminate_iff_exit_suffix [of bare_host "''/exit''" "[]"]
  by (simp add: normalized_url_def py_strip_def py_split_def endswith_def suffix_to_prefix)

text \<open>
  C3 as stated fails: the target \<open>/noexit\<close> stops the server although the final segment
  of its normalized path is \<open>noexit\<close>.
\<close>

theorem terminate_on_noexit:
  "handle_client_request bare_host ''/noexit'' [] = Inr ([], CLOSE_SERVER_STATUS_CODE) \<and>
   last (py_split ''/'' (normalized_url ''/noexit'')) = ''noexit''"
  by (simp add: handle_client_request_def normalized_url_def py_strip_def py_split_def
      endswith_def suffix_to_prefix)

text \<open>
  C8. No value of the redirection table is itself a key of the table.
\<close>

theorem redirect_closure:
  "REDIRECTION_DICTIONARY k = Some v \<Longrightarrow> REDIRECTION_DICTIONARY v = None"
  by (auto simp: REDIRECTION_DICTIONARY_def split: if_splits)


theorem redirect_closure_witness:
  "REDIRECTION_DICTIONARY ''home'' = Some ''webroot/index.html'' \<and>
   REDIRECTION_DICTIONARY ''webroot/index.html'' = None"
  using redirect_closure [of "''home''" "''webroot/index.html''"]
  by (simp add: REDIRECTION_DICTIONARY_def)



lemma strip_both_decomp:
  "s = takeWhile P s @ rev (dropWhile P (rev (dropWhile P s))) @
       rev (takeWhile P (rev (dropWhile P s)))"
proof -
  have "rev (dropWhile P s) =
          takeWhile P (rev (dropWhile P s)) @ dropWhile P (rev (dropWhile P s))"
    by (rule takeWhile_dropWhile_id [symmetric])
  then have "rev (rev (dropWhile P s)) =
          rev (takeWhile P (rev (dropWhile P s)) @ dropWhile P (rev (dropWhile P s)))"
    by (rule arg_cong)
  then have "dropWhile P s =
          rev (dropWhile P (rev (dropWhile P s))) @ rev (takeWhile P (rev (dropWhile P s)))"
    by (simp only: rev_rev_ident rev_append)
  moreover have "s = takeWhile P s @ dropWhile P s"
    by (rule takeWhile_dropWhile_id [symmetric])
  ultimately show ?thesis by simp
qed

lemma takeWhile_eq_replicate:
  "takeWhile (\<lambda>x. x = c) s = replicate (length (takeWhile (\<lambda>x. x = c) s)) c"
  by (induction s) auto

lemma py_strip_single:
  "py_strip [c] s = rev (dropWhile (\<lambda>x. x = c) (rev (dropWhile (\<lambda>x. x = c) s)))"
  by (simp add: py_strip_def)

lemma py_strip_decomp:
  "\<exists>n k. s = replicate n c @ py_strip [c] s @ replicate k c"
proof -
  let ?P = "\<lambda>x. x = c"
  let ?a = "takeWhile ?P s" and ?b = "takeWhile ?P (rev (dropWhile ?P s))"
  have "s = ?a @ py_strip [c] s @ rev ?b"
    unfolding py_strip_single by (rule strip_both_decomp)
  moreover have "?a = replicate (length ?a) c" by (rule takeWhile_eq_replicate)
  moreover have "rev ?b = replicate (length ?b) c"
    using takeWhile_eq_replicate [of c "rev (dropWhile ?P s)"] by (metis rev_replicate)
  ultimately show ?thesis by metis
qed

lemma py_strip_no_trailing: "\<not> endswith (py_strip [c] s) [c]"
proof
  let ?P = "\<lambda>x. x = c"
  let ?d = "dropWhile ?P (rev (dropWhile ?P s))"
  assume "endswith (py_strip [c] s) [c]"
  then have "prefix [c] ?d"
    unfolding py_strip_single endswith_def suffix_to_prefix by simp
  then obtain zs where "?d = c # zs" by (auto simp: prefix_def)
  then have "?d \<noteq> []" and "hd ?d = c" by (metis list.distinct(1), metis list.sel(1))
  then show False using hd_dropWhile [of ?P "rev (dropWhile ?P s)"] by blast
qed

lemma py_strip_no_leading: "\<not> startswith (py_strip [c] s) [c]"
proof
  let ?P = "\<lambda>x. x = c"
  let ?t = "dropWhile ?P s"
  assume st: "startswith (py_strip [c] s) [c]"
  then obtain r where r: "py_strip [c] s = c # r"
    by (auto simp: startswith_def prefix_def)
  have "s = takeWhile ?P s @ py_strip [c] s @ rev (takeWhile ?P (rev ?t))"
    unfolding py_strip_single by (rule strip_both_decomp)
  then have "takeWhile ?P s @ ?t = takeWhile ?P s @ py_strip [c] s @ rev (takeWhile ?P (rev ?t))"
    by simp
  then have "?t = py_strip [c] s @ rev (takeWhile ?P (rev ?t))"
    by (simp only: same_append_eq)
  with r have "?t = c # r @ rev (takeWhile ?P (rev ?t))" by simp
  then have "?t \<noteq> []" and "hd ?t = c" by (metis list.distinct(1), metis list.sel(1))
  then show False using hd_dropWhile [of ?P s] by blast
qed

text \<open>
  C4 (as amended). The targets \<open>''\<close> and \<open>/\<close> are replaced by the default path. Every
  other target loses all its leading and all its trailing \<open>/\<close> characters and nothing
  else. The prefix \<open>webroot/\<close> is then put in front unless the path starts with it, and
  the static file is served from the resulting path.
\<close>

theorem normalization_strips_all_slashes:
  "(resource = [] \<or> resource = ''/'' \<longrightarrow> normalized_url resource = DEFAULT_URL) \<and>
   (resource \<noteq> [] \<and> resource \<noteq> ''/'' \<longrightarrow>
      (\<exists>n k. resource = replicate n CHR ''/'' @ normalized_url resource @ replicate k CHR ''/'') \<and>
      \<not> startswith (normalized_url resource) ''/'' \<and>
      \<not> endswith (normalized_url resource) ''/'') \<and>
   (startswith url ''webroot/'' \<longrightarrow> with_webroot url = url) \<and>
   (\<not> startswith url ''webroot/'' \<longrightarrow> with_webroot url = ''webroot/'' @ url) \<and>
   (\<not> endswith (normalized_url resource) ''exit'' \<and>
    REDIRECTION_DICTIONARY (with_webroot (normalized_url resource)) = None \<and>
    \<not> contains ''calculate-area'' (last (py_split ''/'' (with_webroot (normalized_url resource)))) \<and>
    isfile world (with_webroot (normalized_url resource)) \<longrightarrow>
      handle_client_request world resource sock =
        ok world sock [] (with_webroot (normalized_url resource)))"
  using py_strip_decomp [of resource "CHR ''/''"]
    py_strip_no_leading [of "CHR ''/''" resource] py_strip_no_trailing [of "CHR ''/''" resource]
  by (simp add: normalized_url_def with_webroot_def handle_client_request_def)

theorem normalization_strips_all_slashes_witness:
  "''//notes/'' \<noteq> [] \<and> ''//notes/'' \<noteq> ''/'' \<and>
   normalized_url ''//notes/'' = ''notes'' \<and>
   with_webroot ''notes'' = ''webroot/notes'' \<and>
   with_webroot ''webroot/notes'' = ''webroot/notes'' \<and>
   normalized_url ''/'' = DEFAULT_URL \<and>
   handle_client_request small_site ''//notes/'' [] = ok small_site [] [] ''webroot/notes''"
  using normalization_strips_all_slashes [of "''//notes/''" "''notes''" small_site "[]"]
    normalization_strips_all_slashes [of "''/''" "''webroot/notes''" small_site "[]"]
  by (simp add: normalized_url_def with_webroot_def py_strip_def py_split_def startswith_def
      endswith_def suffix_to_prefix contains_def sublist_code REDIRECTION_DICTIONARY_def
      small_site_def DEFAULT_URL_def)

text \<open>
  C4 as stated fails: of \<open>//notes/\<close> the router keeps \<open>notes\<close>, not \<open>/notes/\<close>.
\<close>

theorem normalization_two_slashes:
  "normalized_url ''//notes/'' = ''notes'' \<and> spec_strip_one_slash ''//notes/'' = ''/notes/''"
  by (simp add: normalized_url_def py_strip_def spec_strip_one_slash_def)

lemma digit_char_simps:
  "digit_char 0 = CHR ''0''" "digit_char 1 = CHR ''1''" "digit_char 2 = CHR ''2''"
  "digit_char 3 = CHR ''3''" "digit_char 4 = CHR ''4''" "digit_char 5 = CHR ''5''"
  "digit_char 6 = CHR ''6''" "digit_char 7 = CHR ''7''" "digit_char 8 = CHR ''8''"
  "digit_char 9 = CHR ''9''" "digit_char (Suc 0) = CHR ''1''"
  by (simp_all add: digit_char_def char_of_eq_iff)

lemma encode_ascii: "list_all (\<lambda>c. code_point c < 128) s \<Longrightarrow> encode s = s"
  by (induction s) (auto simp: encode_def encode_char_def)

lemma encode_append: "encode (a @ b) = encode a @ encode b"
  by (simp add: encode_def)

lemma get_http_header_no_url:
  "get_http_header world n [] =
     ''Date: '' @ now world @ CRLF @ ''Content-Length: '' @ str_nat n @ CRLF @
     ''Content-Type: text/html'' @ CRLF @ CRLF"
  by (simp add: get_http_header_def)

lemma not_found_bytes:
  "not_found world sock =
     Inr (sendall sock (''HTTP/1.1 404 Not Found'' @ CRLF @ ''Date: '' @ encode (now world) @ CRLF @
        ''Content-Length: 15'' @ CRLF @ ''Content-Type: text/html'' @ CRLF @ CRLF @
        ''404 Not Found'' @ CRLF), 404)"
  by (simp add: not_found_eq get_http_header_no_url encode_append str_nat.simps digit_char_simps)
     (simp add: encode_def encode_char_def code_point_def CRLF_def)

text \<open>
  C6. When the target of a key of the redirection table is not a file, routing the key
  (with or without a leading \<open>/\<close>) sends the 404 response, whose body is
  \<open>404 Not Found\<close> followed by CRLF, and returns 404.
\<close>

theorem redirect_to_missing_target:
  assumes "REDIRECTION_DICTIONARY k = Some target" and "\<not> isfile world target"
  shows "handle_client_request world k sock =
           Inr (sendall sock (''HTTP/1.1 404 Not Found'' @ CRLF @
                  ''Date: '' @ encode (now world) @ CRLF @
                  ''Content-Length: 15'' @ CRLF @ ''Content-Type: text/html'' @ CRLF @ CRLF @
                  ''404 Not Found'' @ CRLF), 404) \<and>
         handle_client_request world (''/'' @ k) sock = handle_client_request world k sock"
proof -
  from assms(1) have t: "target = ''webroot/index.html''"
    and k: "k = ''webroot/home.html'' \<or> k = ''home'' \<or> k = ''home.html'' \<or> k = ''webroot/home''"
    by (auto simp: REDIRECTION_DICTIONARY_def split: if_splits)
  have m: "moved_temporarily world sock u = not_found world sock"
    if "REDIRECTION_DICTIONARY u = Some ''webroot/index.html''" for u
    using that assms(2) t by (simp add: moved_temporarily_eq)
  have r: "REDIRECTION_DICTIONARY ''webroot/home.html'' = Some ''webroot/index.html''"
    "REDIRECTION_DICTIONARY ''webroot/home'' = Some ''webroot/index.html''"
    by (simp_all add: REDIRECTION_DICTIONARY_def)
  note ev = handle_client_request_def normalized_url_def with_webroot_def py_strip_def
    startswith_def endswith_def suffix_to_prefix Let_def
  have "handle_client_request world ''webroot/home.html'' sock = not_found world sock"
    "handle_client_request world ''/webroot/home.html'' sock = not_found world sock"
    "handle_client_request world ''home.html'' sock = not_found world sock"
    "handle_client_request world ''/home.html'' sock = not_found world sock"
    using r(1) m [OF r(1)] by (simp_all add: ev)
  moreover have "handle_client_request world ''webroot/home'' sock = not_found world sock"
    "handle_client_request world ''/webroot/home'' sock = not_found world sock"
    "handle_client_request world ''home'' sock = not_found world sock"
    "handle_client_request world ''/home'' sock = not_found world sock"
    using r(2) m [OF r(2)] by (simp_all add: ev)
  ultimately have "handle_client_request world k sock = not_found world sock \<and>
           handle_client_request world (''/'' @ k) sock = not_found world sock"
    using k by auto
  then show ?thesis by (simp add: not_found_bytes)
qed

theorem redirect_to_missing_target_witness:
  "REDIRECTION_DICTIONARY ''home'' = Some ''webroot/index.html'' \<and>
   \<not> isfile bare_host ''webroot/index.html'' \<and>
   handle_client_request bare_host ''/home'' [] =
     Inr ([''HTTP/1.1 404 Not Found'' @ CRLF @ ''Date: Thu, 01 Jan 2026 00:00:00 GMT'' @ CRLF @
           ''Content-Length: 15'' @ CRLF @ ''Content-Type: text/html'' @ CRLF @ CRLF @
           ''404 Not Found'' @ CRLF], 404)"
proof -
  have d: "encode (now bare_host) = ''Thu, 01 Jan 2026 00:00:00 GMT''"
    by (simp add: bare_host_def encode_ascii code_point_def)
  have r: "REDIRECTION_DICTIONARY ''home'' = Some ''webroot/index.html''"
    by (simp add: REDIRECTION_DICTIONARY_def)
  have f: "\<not> isfile bare_host ''webroot/index.html''"
    by (simp add: bare_host_def)
  from redirect_to_missing_target [OF r f, of "[]"] show ?thesis
    by (simp add: r f d sendall_def)
qed

section \<open>Small quotients are exact\<close>


lemma bit_length_pos: "0 < n \<Longrightarrow> 0 < bit_length n"
  by (subst bit_length.simps) simp

lemma bit_length_bounds:
  "0 < n \<Longrightarrow> 2 ^ (bit_length n - 1) \<le> n \<and> n < 2 ^ bit_length n"
proof (induction n rule: bit_length.induct)
  case (1 n)
  have bl: "bit_length n = Suc (bit_length (n div 2))"
    using 1(2) by (subst bit_length.simps) simp
  show ?case
  proof (cases "n div 2 = 0")
    case True
    with 1(2) have n1: "n = 1" by (cases n) auto
    have "bit_length (1 div 2) = 0" by (subst bit_length.simps) simp
    with bl n1 show ?thesis by simp
  next
    case False
    then have pos: "0 < n div 2" by simp
    let ?b = "bit_length (n div 2)"
    from 1(1) pos 1(2)
    have ih1: "2 ^ (?b - 1) \<le> n div 2" and ih2: "n div 2 < 2 ^ ?b"
      by simp_all
    have b1: "0 < ?b" by (rule bit_length_pos [OF pos])
    then obtain c where c: "?b = Suc c" by (cases ?b) simp_all
    have d1: "2 * (n div 2) \<le> n" and d2: "n < 2 * (n div 2) + 2" by arith+
    have "(2::nat) ^ ?b = 2 * 2 ^ (?b - 1)" unfolding c by simp
    with ih1 d1 have lo: "2 ^ ?b \<le> n" by linarith
    from ih2 have "n div 2 + 1 \<le> 2 ^ ?b" by simp
    with d2 have hi: "n < 2 * 2 ^ ?b" by linarith
    from lo hi show ?thesis unfolding bl by simp
  qed
qed

lemma bit_length_le:
  assumes "0 < n" and "n < 2 ^ j"
  shows "bit_length n \<le> j"
proof (rule ccontr)
  assume "\<not> bit_length n \<le> j"
  then have "j \<le> bit_length n - 1" by simp
  then have "(2::nat) ^ j \<le> 2 ^ (bit_length n - 1)" by (rule power_increasing) simp
  also have "\<dots> \<le> n" using bit_length_bounds [OF assms(1)] by blast
  finally show False using assms(2) by linarith
qed

lemma round_half_even_double: "round_half_even (2 * a) 2 = a"
  by (simp add: round_half_even_def)

lemma bit_length_two: "bit_length 2 = 2"
  by (simp add: bit_length.simps)

lemma binary_exponent_two:
  assumes "0 < n"
  shows "binary_exponent n 2 = int (bit_length n) - 2"
proof -
  from bit_length_bounds [OF assms] have lo: "2 ^ (bit_length n - 1) \<le> n" by blast
  have p: "0 < bit_length n" by (rule bit_length_pos [OF assms])
  show ?thesis
  proof (cases "2 \<le> bit_length n")
    case True
    define c where "c = bit_length n - 2"
    with True have c: "bit_length n = Suc (Suc c)" by simp
    have "binary_exponent n 2 = (if 2 * 2 ^ c \<le> n then int c else int c - 1)"
      by (simp add: binary_exponent_def bit_length_two c)
    with lo c show ?thesis by simp
  next
    case False
    with p have b1: "bit_length n = 1" by simp
    with lo have "1 \<le> n" by simp
    then show ?thesis by (simp add: binary_exponent_def bit_length_two b1)
  qed
qed




lemma pow2_pos: "0 < pow2 e"
  by (simp add: pow2_def)

lemma pow2_le_quarter: "e \<le> - 2 \<Longrightarrow> pow2 e \<le> 1 / 4"
proof -
  assume e: "e \<le> - 2"
  define j where "j = nat (- e) - 2"
  with e have j: "nat (- e) = Suc (Suc j)" by simp
  have "(4::rat) \<le> 2 ^ Suc (Suc j)" by simp
  then have "1 / (2::rat) ^ Suc (Suc j) \<le> 1 / 4"
    by (simp only: frac_le zero_less_numeral order_refl zero_le_one)
  with e j show ?thesis by (simp add: pow2_def)
qed

lemma rounds_to_self: "rounds_to m e (of_nat m * pow2 e)"
  using pow2_pos [of "e - 1"] pow2_pos [of "e - 2"]
  by (simp add: rounds_to_def Let_def less_eq_rat_def)

lemma rounds_to_near:
  assumes "e \<le> - 1" and "rounds_to m e c"
  shows "\<bar>c - of_nat m * pow2 e\<bar> \<le> 1 / 4"
proof -
  define x where "x = rat_of_nat m * pow2 e"
  define dn where "dn = (if m = 2 ^ 52 \<and> - 1074 < e then pow2 (e - 2) else pow2 (e - 1))"
  define up where "up = pow2 (e - 1)"
  from assms(1) have "e - 1 \<le> - 2" and "e - 2 \<le> - 2" by simp_all
  then have u: "pow2 (e - 1) \<le> 1 / 4" and d: "pow2 (e - 2) \<le> 1 / 4"
    using pow2_le_quarter by blast+
  have dn: "dn \<le> 1 / 4" unfolding dn_def using u d by (cases "m = 2 ^ 52 \<and> - 1074 < e") simp_all
  have up: "up \<le> 1 / 4" unfolding up_def by (rule u)
  from assms(2) have "(x - dn \<le> c \<and> c \<le> x + up) \<or> (x - dn < c \<and> c < x + up)"
    unfolding rounds_to_def Let_def x_def dn_def up_def by (cases "even m") simp_all
  with dn up have "\<bar>c - x\<bar> \<le> 1 / 4" by linarith
  then show ?thesis unfolding x_def .
qed

lemma int_truediv_half:
  assumes "0 < n" and "n < 2 ^ 53"
  shows "int_truediv (int n) 2 =
           Inr (PyFloat False (n * 2 ^ (53 - bit_length n)) (int (bit_length n) - 54))"
proof -
  let ?b = "bit_length n"
  define k where "k = 53 - ?b"
  have b1: "0 < ?b" by (rule bit_length_pos [OF assms(1)])
  have b2: "?b \<le> 53" by (rule bit_length_le [OF assms])
  have e: "max (int ?b - 2 - 52) (- 1074) = int ?b - 54" by simp
  have n1: "nat (54 - int ?b) = Suc k" using b2 by (simp add: k_def)
  have n2: "nat (int ?b - 54) = 0" using b2 by simp
  have r: "round_half_even (n * 2 ^ Suc k) 2 = n * 2 ^ k"
    using round_half_even_double [of "n * 2 ^ k"] by (simp add: mult.commute mult.left_commute)
  have "n * 2 ^ k < 2 ^ ?b * 2 ^ k"
    using bit_length_bounds [OF assms(1)] by simp
  also have "\<dots> = 2 ^ 53" using b2 by (simp add: k_def power_add [symmetric])
  finally have lt: "n * 2 ^ k < 2 ^ 53" .
  have "int_truediv (int n) 2 = Inr (PyFloat False (n * 2 ^ k) (int ?b - 54))"
    using assms(1) lt b2
    by (simp add: int_truediv_def binary_exponent_two e n1 n2 r Let_def del: power_Suc)
  then show ?thesis by (simp add: k_def)
qed

lemma float_value_half:
  assumes "0 < n" and "n < 2 ^ 53"
  shows "of_nat (n * 2 ^ (53 - bit_length n)) * pow2 (int (bit_length n) - 54) = (of_nat n / 2 :: rat)"
proof -
  let ?b = "bit_length n"
  define k where "k = 53 - ?b"
  have b2: "?b \<le> 53" by (rule bit_length_le [OF assms])
  have n1: "nat (- (int ?b - 54)) = Suc k" using b2 by (simp add: k_def)
  have "pow2 (int ?b - 54) = 1 / 2 ^ Suc k"
    using b2 n1 by (simp add: pow2_def del: power_Suc)
  then show ?thesis by (simp add: k_def [symmetric])
qed




lemma pow10_pos: "0 < pow10 k"
  by (simp add: pow10_def)

lemma digits_at_Some_rounds:
  "digits_at m e p N = Some d \<Longrightarrow> rounds_to m e (of_nat d * pow10 (p - int N))"
  unfolding digits_at_def Let_def by (auto split: if_splits)

lemma digits_at_lo:
  assumes "of_nat (nat \<lfloor>of_nat m * pow2 e / pow10 (p - int N)\<rfloor>) * pow10 (p - int N) = of_nat m * pow2 e"
  shows "digits_at m e p N = Some (nat \<lfloor>of_nat m * pow2 e / pow10 (p - int N)\<rfloor>)"
proof -
  define x where "x = rat_of_nat m * pow2 e"
  define s where "s = pow10 (p - int N)"
  define lo where "lo = nat \<lfloor>x / s\<rfloor>"
  have s: "0 < s" unfolding s_def by (rule pow10_pos)
  have eq: "of_nat lo * s = x" using assms unfolding x_def s_def lo_def .
  have ok: "rounds_to m e (of_nat lo * s)" unfolding eq x_def by (rule rounds_to_self)
  have lt: "x - of_nat lo * s < of_nat (lo + 1) * s - x"
    using s eq by (simp add: algebra_simps)
  have "digits_at m e p N = Some lo"
    unfolding digits_at_def Let_def x_def [symmetric] s_def [symmetric] lo_def [symmetric]
    using ok lt by simp
  then show ?thesis unfolding lo_def x_def s_def .
qed

lemma int_between: "\<bar>rat_of_int z\<bar> < 1 \<Longrightarrow> z = 0"
proof -
  assume "\<bar>rat_of_int z\<bar> < 1"
  then have "rat_of_int \<bar>z\<bar> < rat_of_int 1" by simp
  then have "\<bar>z\<bar> < 1" by (simp only: of_int_less_iff)
  then show ?thesis by simp
qed

lemma half_int_close:
  assumes "\<bar>rat_of_nat a - rat_of_nat b / 2\<bar> \<le> 1 / 4"
  shows "rat_of_nat a = rat_of_nat b / 2"
proof -
  have "rat_of_int (2 * int a - int b) = 2 * (rat_of_nat a - rat_of_nat b / 2)" by simp
  then have "\<bar>rat_of_int (2 * int a - int b)\<bar> = 2 * \<bar>rat_of_nat a - rat_of_nat b / 2\<bar>"
    by (simp only: abs_mult)
  with assms have "\<bar>rat_of_int (2 * int a - int b)\<bar> < 1" by linarith
  then have "2 * int a - int b = 0" by (rule int_between)
  then have "int b = 2 * int a" by simp
  then have "b = 2 * a" by linarith
  then show ?thesis by simp
qed

lemma digits_at_exact:
  assumes e: "e \<le> - 1" and hx: "of_nat m * pow2 e = rat_of_nat n / 2"
    and d: "digits_at m e p N = Some d"
  shows "of_nat d * pow10 (p - int N) = rat_of_nat n / 2"
proof (cases "0 \<le> p - int N")
  case True
  define j where "j = nat (p - int N)"
  have s: "pow10 (p - int N) = rat_of_nat (10 ^ j)"
    using True by (simp add: pow10_def j_def)
  from rounds_to_near [OF e digits_at_Some_rounds [OF d]]
  have "\<bar>rat_of_nat (d * 10 ^ j) - rat_of_nat n / 2\<bar> \<le> 1 / 4"
    unfolding s hx by simp
  then have "rat_of_nat (d * 10 ^ j) = rat_of_nat n / 2" by (rule half_int_close)
  then show ?thesis unfolding s by simp
next
  case False
  define j where "j = nat (int N - p) - 1"
  have j: "nat (- (p - int N)) = Suc j" using False by (simp add: j_def)
  have s: "pow10 (p - int N) = 1 / 10 ^ Suc j"
    using False j by (simp add: pow10_def del: power_Suc)
  have q: "rat_of_nat m * pow2 e / pow10 (p - int N) = rat_of_nat (n * 5 * 10 ^ j)"
    unfolding hx s by simp
  have lo: "nat \<lfloor>rat_of_nat m * pow2 e / pow10 (p - int N)\<rfloor> = n * 5 * 10 ^ j"
    unfolding q by (simp only: floor_of_nat nat_int)
  have "of_nat (n * 5 * 10 ^ j) * pow10 (p - int N) = rat_of_nat m * pow2 e"
    unfolding hx s by simp
  then have "digits_at m e p N = Some (n * 5 * 10 ^ j)"
    using digits_at_lo [of m e p N] unfolding lo by simp
  with d have "d = n * 5 * 10 ^ j" by simp
  then show ?thesis unfolding s by simp
qed

lemma shortest_digits_finds:
  assumes "digits_at m e p N \<noteq> None" and "n \<le> N" and "N < n + fuel"
  shows "\<exists>n' d. n \<le> n' \<and> n' \<le> N \<and> digits_at m e p n' = Some d \<and>
           shortest_digits m e p n fuel = (d, p - int n')"
  using assms
proof (induction fuel arbitrary: n)
  case 0
  then show ?case by simp
next
  case (Suc fuel)
  show ?case
  proof (cases "digits_at m e p n")
    case (Some d)
    with Suc.prems(2) show ?thesis by auto
  next
    case None
    with Suc.prems(1) have "n \<noteq> N" by auto
    with Suc.prems have "n + 1 \<le> N" and "N < (n + 1) + fuel" by simp_all
    from Suc.IH [OF Suc.prems(1) this] obtain n' d where
      "n + 1 \<le> n'" "n' \<le> N" "digits_at m e p n' = Some d"
      "shortest_digits m e p (n + 1) fuel = (d, p - int n')" by blast
    with None show ?thesis by (intro exI [of _ n'] exI [of _ d]) simp
  qed
qed




lemma digit_char_code: "d < 10 \<Longrightarrow> code_point (digit_char d) = 48 + d"
  by (simp add: code_point_def digit_char_def)

lemma digit_char_decimal: "d < 10 \<Longrightarrow> isdecimal_char (digit_char d)"
  by (simp add: isdecimal_char_def digit_char_code)

lemma digit_char_zero_iff: "d < 10 \<Longrightarrow> digit_char d = CHR ''0'' \<longleftrightarrow> d = 0"
proof
  assume d: "d < 10" and "digit_char d = CHR ''0''"
  then have "code_point (digit_char d) = code_point CHR ''0''" by simp
  with d show "d = 0" by (simp add: digit_char_code) (simp add: code_point_def)
next
  assume "d = 0"
  then show "digit_char d = CHR ''0''" by (simp add: digit_char_simps)
qed

lemma str_nat_ne: "str_nat n \<noteq> []"
  by (subst str_nat.simps) simp

lemma str_nat_small: "n < 10 \<Longrightarrow> str_nat n = [digit_char n]"
  by (subst str_nat.simps) simp

lemma str_nat_snoc:
  assumes "0 < n" and "b < 10"
  shows "str_nat (10 * n + b) = str_nat n @ [digit_char b]"
proof -
  from assms have "\<not> 10 * n + b < 10" and "(10 * n + b) div 10 = n" and "(10 * n + b) mod 10 = b"
    by simp_all
  then show ?thesis by (subst str_nat.simps) simp
qed

lemma str_nat_pow10:
  "0 < d \<Longrightarrow> str_nat (d * 10 ^ j) = str_nat d @ replicate j CHR ''0''"
proof (induction j)
  case 0
  then show ?case by simp
next
  case (Suc j)
  have eq: "d * 10 ^ Suc j = 10 * (d * 10 ^ j) + 0" by simp
  have "0 < d * 10 ^ j" using Suc.prems by simp
  then have "str_nat (10 * (d * 10 ^ j) + 0) = str_nat (d * 10 ^ j) @ [digit_char 0]"
    by (rule str_nat_snoc) simp
  then have "str_nat (d * 10 ^ Suc j) = str_nat (d * 10 ^ j) @ [digit_char 0]"
    by (simp only: eq)
  with Suc show ?case by (simp add: digit_char_simps replicate_append_same)
qed

lemma str_nat_decimal: "list_all isdecimal_char (str_nat n)"
proof (induction n rule: str_nat.induct)
  case (1 n)
  show ?case
  proof (cases "n < 10")
    case True
    then show ?thesis by (simp add: str_nat_small digit_char_decimal)
  next
    case False
    then have "str_nat n = str_nat (n div 10) @ [digit_char (n mod 10)]"
      by (subst str_nat.simps) simp
    with 1 [OF False] show ?thesis by (simp add: digit_char_decimal)
  qed
qed

lemma length_str_nat_le: "0 < j \<Longrightarrow> n < 10 ^ j \<Longrightarrow> length (str_nat n) \<le> j"
proof (induction j arbitrary: n)
  case 0
  then show ?case by simp
next
  case (Suc j)
  show ?case
  proof (cases "n < 10")
    case True
    then show ?thesis by (simp add: str_nat_small)
  next
    case False
    then have s: "str_nat n = str_nat (n div 10) @ [digit_char (n mod 10)]"
      by (subst str_nat.simps) simp
    have j: "0 < j" using False Suc.prems(2) by (cases j) simp_all
    from Suc.prems(2) have "n div 10 < 10 ^ j" by simp
    from Suc.IH [OF j this] s show ?thesis by simp
  qed
qed

lemma last_str_nat: "last (str_nat n) = digit_char (n mod 10)"
  by (subst str_nat.simps) simp

lemma strip_zeros_decomp: "\<exists>z. s = strip_zeros s @ replicate z CHR ''0''"
proof -
  let ?P = "\<lambda>c. c = CHR ''0''"
  have "rev s = takeWhile ?P (rev s) @ dropWhile ?P (rev s)" by simp
  then have "rev (rev s) = rev (takeWhile ?P (rev s) @ dropWhile ?P (rev s))" by (rule arg_cong)
  then have "s = strip_zeros s @ rev (takeWhile ?P (rev s))"
    by (simp only: rev_rev_ident rev_append strip_zeros_def)
  moreover have "rev (takeWhile ?P (rev s)) = replicate (length (takeWhile ?P (rev s))) CHR ''0''"
    using takeWhile_eq_replicate [of "CHR ''0''" "rev s"] by (metis rev_replicate)
  ultimately show ?thesis by metis
qed

lemma strip_zeros_id: "s \<noteq> [] \<Longrightarrow> last s \<noteq> CHR ''0'' \<Longrightarrow> strip_zeros s = s"
  by (cases s rule: rev_cases) (simp_all add: strip_zeros_def)




lemma format_repr_positional:
  "0 < L \<Longrightarrow> L \<le> 16 \<Longrightarrow> length (strip_zeros full) \<le> L \<Longrightarrow>
   format_repr full (int L) =
     strip_zeros full @ replicate (L - length (strip_zeros full)) CHR ''0'' @ ''.0''"
  by (simp add: format_repr_def Let_def)

lemma format_repr_point:
  "0 < L \<Longrightarrow> L \<le> 16 \<Longrightarrow> L < length (strip_zeros full) \<Longrightarrow>
   format_repr full (int L) =
     take L (strip_zeros full) @ ''.'' @ drop L (strip_zeros full)"
  by (simp add: format_repr_def Let_def)

lemma format_repr_whole:
  assumes q: "0 < q" "q < 10 ^ 16" and d: "d * 10 ^ k = q"
  shows "format_repr (str_nat d) (int (length (str_nat d)) + int k) = str_nat q @ ''.0''"
proof -
  let ?full = "str_nat d"
  let ?ds = "strip_zeros ?full"
  from q(1) d have dpos: "0 < d" by (cases d) auto
  have sq: "str_nat q = ?full @ replicate k CHR ''0''"
    using str_nat_pow10 [OF dpos, of k] d by simp
  obtain z where z: "?full = ?ds @ replicate z CHR ''0''"
    using strip_zeros_decomp by blast
  define L where "L = length (str_nat q)"
  have L1: "0 < L" unfolding L_def using str_nat_ne [of q] by simp
  have L16: "L \<le> 16" unfolding L_def by (rule length_str_nat_le [OF _ q(2)]) simp
  have Lf: "L = length ?full + k" unfolding L_def sq by simp
  have Ld: "L = length ?ds + z + k"
    using Lf arg_cong [OF z, of length] by simp
  have dec: "int (length ?full) + int k = int L" using Lf by simp
  have "length ?ds \<le> L" using Ld by simp
  with L1 L16
  have "format_repr ?full (int L) = ?ds @ replicate (L - length ?ds) CHR ''0'' @ ''.0''"
    by (rule format_repr_positional)
  also have "L - length ?ds = z + k" using Ld by simp
  also have "?ds @ replicate (z + k) CHR ''0'' @ ''.0'' = str_nat q @ ''.0''"
    unfolding sq using z by (simp add: replicate_add)
  finally show ?thesis unfolding dec .
qed

lemma format_repr_half:
  assumes q: "q < 10 ^ 16"
  shows "format_repr (str_nat (10 * q + 5)) (int (length (str_nat (10 * q + 5))) - 1) =
           str_nat q @ ''.5''"
proof (cases "q = 0")
  case True
  have "str_nat (10 * q + 5) = ''5''" unfolding True by (simp add: str_nat_small digit_char_simps)
  moreover have "str_nat q = ''0''" unfolding True by (simp add: str_nat_small digit_char_simps)
  ultimately show ?thesis by (simp add: format_repr_def strip_zeros_def)
next
  case False
  then have qpos: "0 < q" by simp
  let ?full = "str_nat (10 * q + 5)"
  have f: "?full = str_nat q @ ''5''"
    using str_nat_snoc [OF qpos, of 5] by (simp add: digit_char_simps)
  have ds: "strip_zeros ?full = ?full"
    unfolding f by (rule strip_zeros_id) simp_all
  define L where "L = length (str_nat q)"
  have L1: "0 < L" unfolding L_def using str_nat_ne [of q] by simp
  have L16: "L \<le> 16" unfolding L_def by (rule length_str_nat_le [OF _ q]) simp
  have dec: "int (length ?full) - 1 = int L" unfolding f L_def by simp
  have "L < length (strip_zeros ?full)" by (simp only: ds) (simp add: f L_def)
  with L1 L16
  have "format_repr ?full (int L) = take L (strip_zeros ?full) @ ''.'' @ drop L (strip_zeros ?full)"
    by (rule format_repr_point)
  then have "format_repr ?full (int L) = take L ?full @ ''.'' @ drop L ?full"
    unfolding ds .
  also have "\<dots> = str_nat q @ ''.5''" unfolding f L_def by simp
  finally show ?thesis unfolding dec .
qed




lemma float_str_unfold:
  "m \<noteq> 0 \<Longrightarrow> shortest_digits m e (decimal_point (of_nat m * pow2 e)) 1 17 = (d, k) \<Longrightarrow>
   float_str (PyFloat False m e) = format_repr (str_nat d) (int (length (str_nat d)) + k)"
  by (simp add: float_str_def Let_def)

lemma small_below_pow10:
  fixes q :: nat
  assumes "2 * q < 2 ^ 53"
  shows "q < 10 ^ 16"
proof -
  from assms have "q < 2 ^ 52" by simp
  also have "(2::nat) ^ 52 < 10 ^ 16" by simp
  finally show ?thesis .
qed

lemma float_str_whole:
  assumes q: "0 < q" "q < 10 ^ 16" and e: "e \<le> - 1"
    and hx: "of_nat m * pow2 e = rat_of_nat (2 * q) / 2"
  shows "float_str (PyFloat False m e) = str_nat q @ ''.0''"
proof -
  define L where "L = length (str_nat q)"
  have L1: "1 \<le> L" unfolding L_def using str_nat_ne [of q] by (cases "str_nat q") simp_all
  have L16: "L \<le> 16" unfolding L_def by (rule length_str_nat_le [OF _ q(2)]) simp
  have x: "of_nat m * pow2 e = rat_of_nat q" using hx by simp
  have m0: "m \<noteq> 0" using x q(1) by (cases m) simp_all
  have p: "decimal_point (of_nat m * pow2 e) = int L"
    unfolding x L_def using q(1) by (simp add: decimal_point_def)
  have "pow10 (int L - int L) = 1" by (simp add: pow10_def)
  then have "of_nat (nat \<lfloor>of_nat m * pow2 e / pow10 (int L - int L)\<rfloor>) * pow10 (int L - int L)
      = of_nat m * pow2 e"
    unfolding x by simp
  then have "digits_at m e (int L) L \<noteq> None"
    using digits_at_lo [of m e "int L" L] by simp
  from shortest_digits_finds [OF this L1, of 17] L16
  obtain n' d where n': "1 \<le> n'" "n' \<le> L" and da: "digits_at m e (int L) n' = Some d"
    and sd: "shortest_digits m e (int L) 1 17 = (d, int L - int n')"
    by auto
  define k where "k = L - n'"
  have k: "int L - int n' = int k" using n'(2) by (simp add: k_def)
  from digits_at_exact [OF e hx da]
  have "rat_of_nat d * pow10 (int k) = rat_of_nat q" unfolding k by simp
  then have "rat_of_nat (d * 10 ^ k) = rat_of_nat q" by (simp add: pow10_def)
  then have dq: "d * 10 ^ k = q" by (simp only: of_nat_eq_iff)
  have "float_str (PyFloat False m e) = format_repr (str_nat d) (int (length (str_nat d)) + int k)"
    using float_str_unfold [OF m0, of e d "int k"] sd unfolding p k by simp
  then show ?thesis using format_repr_whole [OF q dq] by simp
qed

lemma floor_half_odd: "\<lfloor>rat_of_nat (2 * q + 1) / 2\<rfloor> = int q"
  by (rule floor_unique) (simp_all add: field_simps)

lemma float_str_halves:
  assumes q: "q < 10 ^ 16" and e: "e \<le> - 1"
    and hx: "of_nat m * pow2 e = rat_of_nat (2 * q + 1) / 2"
  shows "float_str (PyFloat False m e) = str_nat q @ ''.5''"
proof -
  define p where "p = (if q = 0 then 0 else length (str_nat q))"
  have p16: "p \<le> 16"
    unfolding p_def using length_str_nat_le [OF _ q] by simp
  have m0: "m \<noteq> 0" using hx by (cases m) simp_all
  have dp: "decimal_point (of_nat m * pow2 e) = int p"
  proof (cases "q = 0")
    case True
    then show ?thesis unfolding hx p_def
      by (simp add: decimal_point_def str_nat_small)
  next
    case False
    then have "1 \<le> rat_of_nat (2 * q + 1) / 2" by simp
    then show ?thesis unfolding hx p_def using False
      by (simp only: decimal_point_def floor_half_odd if_True if_False nat_int)
  qed
  define N where "N = p + 1"
  have s: "pow10 (int p - int N) = 1 / 10" by (simp add: pow10_def N_def)
  have "of_nat m * pow2 e / pow10 (int p - int N) = rat_of_nat (5 * (2 * q + 1))"
    unfolding hx s by simp
  then have lo: "nat \<lfloor>of_nat m * pow2 e / pow10 (int p - int N)\<rfloor> = 5 * (2 * q + 1)"
    by (simp only: floor_of_nat nat_int)
  have "of_nat (5 * (2 * q + 1)) * pow10 (int p - int N) = rat_of_nat m * pow2 e"
    unfolding hx s by simp
  then have "digits_at m e (int p) N \<noteq> None"
    using digits_at_lo [of m e "int p" N] unfolding lo by simp
  moreover have "1 \<le> N" and "N < 1 + 17" using p16 by (simp_all add: N_def)
  ultimately obtain n' d where n': "1 \<le> n'" "n' \<le> N"
    and da: "digits_at m e (int p) n' = Some d"
    and sd: "shortest_digits m e (int p) 1 17 = (d, int p - int n')"
    using shortest_digits_finds [of m e "int p" N 1 17] by blast
  from digits_at_exact [OF e hx da]
  have ex: "rat_of_nat d * pow10 (int p - int n') = rat_of_nat (2 * q + 1) / 2" .
  have "\<not> n' \<le> p"
  proof
    assume le: "n' \<le> p"
    define j where "j = p - n'"
    from le have "int p - int n' = int j" by (simp add: j_def)
    with ex have "rat_of_nat (2 * (d * 10 ^ j)) = rat_of_nat (2 * q + 1)"
      by (simp add: pow10_def)
    then have "2 * (d * 10 ^ j) = 2 * q + 1" by (simp only: of_nat_eq_iff)
    then show False by presburger
  qed
  with n'(2) have n'eq: "n' = p + 1" by (simp add: N_def)
  then have k: "int p - int n' = - 1" by simp
  from ex have "rat_of_nat d = rat_of_nat (5 * (2 * q + 1))"
    unfolding k by (simp add: pow10_def)
  then have d: "d = 10 * q + 5" by (simp only: of_nat_eq_iff) simp
  have "float_str (PyFloat False m e) =
          format_repr (str_nat d) (int (length (str_nat d)) + (int p - int n'))"
    using float_str_unfold [OF m0, of e d "int p - int n'"] sd unfolding dp by simp
  then show ?thesis unfolding k d using format_repr_half [OF q] by simp
qed


section \<open>The computed endpoint\<close>


lemma split_aux_char_none:
  "c \<notin> set s \<Longrightarrow> split_aux [c] cur s = [rev cur @ s]"
  by (induction s arbitrary: cur) auto

lemma split_aux_char_first:
  "c \<notin> set s \<Longrightarrow> split_aux [c] cur (s @ c # t) = (rev cur @ s) # split_aux [c] [] t"
  by (induction s arbitrary: cur) auto

lemma py_split_char_once:
  "c \<notin> set s \<Longrightarrow> c \<notin> set t \<Longrightarrow> py_split [c] (s @ c # t) = [s, t]"
  by (simp add: py_split_def split_aux_char_first split_aux_char_none)

lemma decimal_not_separator:
  assumes "list_all isdecimal_char h"
  shows "CHR ''?'' \<notin> set h" and "CHR ''&'' \<notin> set h" and "CHR ''='' \<notin> set h"
    and "CHR ''_'' \<notin> set h" and "CHR ''-'' \<notin> set h" and "CHR ''+'' \<notin> set h"
  using assms by (auto simp: list_all_iff isdecimal_char_def code_point_def)

lemma decimal_isnumeric: "h \<noteq> [] \<Longrightarrow> list_all isdecimal_char h \<Longrightarrow> isnumeric h"
  by (auto simp: isnumeric_def list_all_iff isnumeric_char_def isdecimal_char_def)

lemma decimal_ascii: "list_all isdecimal_char h \<Longrightarrow> list_all (\<lambda>c. code_point c < 128) h"
  by (auto simp: list_all_iff isdecimal_char_def)

lemma decimal_well_grouped: "h \<noteq> [] \<Longrightarrow> list_all isdecimal_char h \<Longrightarrow> well_grouped h"
proof (induction h rule: well_grouped.induct)
  case 1
  then show ?case by simp
next
  case (2 c)
  then show ?case by simp
next
  case (3 c d s)
  from 3(4) have "d \<noteq> CHR ''_''"
    by (auto simp: isdecimal_char_def code_point_def)
  with 3 show ?case by simp
qed

lemma dropWhile_none:
  "s \<noteq> [] \<Longrightarrow> \<not> P (hd s) \<Longrightarrow> dropWhile P s = s"
  by (cases s) simp_all

lemma decimal_not_int_space: "isdecimal_char c \<Longrightarrow> \<not> int_space c"
  by (auto simp: isdecimal_char_def int_space_def)

lemma py_int_decimal:
  assumes "h \<noteq> []" and "list_all isdecimal_char h"
  shows "py_int h = Inr (digits_value 0 h)"
proof -
  from assms have "isdecimal_char (hd h)" and "isdecimal_char (last h)"
    by (auto simp: list_all_iff)
  then have a: "\<not> int_space (hd h)" and b: "\<not> int_space (hd (rev h))"
    using assms(1) by (simp_all add: decimal_not_int_space hd_rev)
  have t: "rev (dropWhile int_space (rev (dropWhile int_space h))) = h"
    using assms(1) a b by (simp add: dropWhile_none)
  have "hd h \<in> set h" using assms(1) by simp
  with decimal_not_separator [OF assms(2)]
  have s: "hd h \<noteq> CHR ''-''" "hd h \<noteq> CHR ''+''" by auto
  have f: "filter (\<lambda>c. c \<noteq> CHR ''_'') h = h"
    using decimal_not_separator(4) [OF assms(2)] by (auto simp: filter_id_conv)
  show ?thesis
    unfolding py_int_def t Let_def
    using s decimal_well_grouped [OF assms] f by simp
qed

lemma digits_value_nonneg:
  "0 \<le> acc \<Longrightarrow> list_all isdecimal_char h \<Longrightarrow> 0 \<le> digits_value acc h"
  by (induction h arbitrary: acc) (auto simp: isdecimal_char_def)

lemma area_parameters:
  assumes "list_all isdecimal_char h" and "list_all isdecimal_char w"
  shows "py_split ''&'' (last (py_split ''?'' (''calculate-area?height='' @ h @ ''&width='' @ w)))
           = [''height='' @ h, ''width='' @ w]"
    and "last (py_split ''='' (''height='' @ h)) = h"
    and "last (py_split ''='' (''width='' @ w)) = w"
proof -
  note nh = decimal_not_separator [OF assms(1)] and nw = decimal_not_separator [OF assms(2)]
  have "py_split ''?'' (''calculate-area'' @ CHR ''?'' # (''height='' @ h @ ''&width='' @ w))
          = [''calculate-area'', ''height='' @ h @ ''&width='' @ w]"
    by (rule py_split_char_once) (use nh nw in simp_all)
  then have q: "last (py_split ''?'' (''calculate-area?height='' @ h @ ''&width='' @ w))
          = ''height='' @ h @ ''&width='' @ w" by simp
  have "py_split ''&'' ((''height='' @ h) @ CHR ''&'' # (''width='' @ w))
          = [''height='' @ h, ''width='' @ w]"
    by (rule py_split_char_once) (use nh nw in simp_all)
  then show "py_split ''&'' (last (py_split ''?'' (''calculate-area?height='' @ h @ ''&width='' @ w)))
           = [''height='' @ h, ''width='' @ w]"
    unfolding q by simp
  have "py_split ''='' (''height'' @ CHR ''='' # h) = [''height'', h]"
    by (rule py_split_char_once) (use nh in simp_all)
  then show "last (py_split ''='' (''height='' @ h)) = h" by simp
  have "py_split ''='' (''width'' @ CHR ''='' # w) = [''width'', w]"
    by (rule py_split_char_once) (use nw in simp_all)
  then show "last (py_split ''='' (''width='' @ w)) = w" by simp
qed




lemma endswith_dot_zero:
  "endswith (s @ ''.0'') ''.0''" "\<not> endswith (s @ ''.5'') ''.0''"
  by (simp_all add: endswith_def suffix_to_prefix)

lemma half_area_str:
  assumes "0 \<le> a" and "a < 2 ^ 53"
  shows "\<exists>q. int_truediv a 2 = Inr q \<and>
           (if endswith (float_str q) ''.0''
            then take (length (float_str q) - 2) (float_str q) else float_str q)
             = exact_half (nat a)"
proof (cases "a = 0")
  case True
  have "int_truediv 0 2 = Inr (PyFloat False 0 0)" by (simp add: int_truediv_def)
  moreover have "float_str (PyFloat False 0 0) = ''0.0''" by (simp add: float_str_def)
  moreover have "exact_half 0 = ''0''"
    by (simp add: exact_half_def str_nat_small digit_char_simps)
  ultimately show ?thesis unfolding True
    by (simp add: endswith_def suffix_to_prefix)
next
  case False
  define n where "n = nat a"
  with assms False have n: "0 < n" "n < 2 ^ 53" and a: "a = int n" by simp_all
  let ?m = "n * 2 ^ (53 - bit_length n)" and ?e = "int (bit_length n) - 54"
  have tv: "int_truediv a 2 = Inr (PyFloat False ?m ?e)"
    unfolding a by (rule int_truediv_half [OF n])
  have e: "?e \<le> - 1" using bit_length_le [OF n] by simp
  have hx: "of_nat ?m * pow2 ?e = rat_of_nat n / 2" by (rule float_value_half [OF n])
  show ?thesis
  proof (cases "even n")
    case True
    then obtain q where q: "n = 2 * q" by (auto elim: evenE)
    with n have q0: "0 < q" and q16: "q < 10 ^ 16"
      by (simp, intro small_below_pow10, simp)
    have "float_str (PyFloat False ?m ?e) = str_nat q @ ''.0''"
      by (rule float_str_whole [OF q0 q16 e]) (use hx q in simp)
    moreover have "exact_half n = str_nat q" unfolding q by (simp add: exact_half_def)
    ultimately show ?thesis unfolding tv n_def [symmetric]
      by (simp add: endswith_dot_zero)
  next
    case False
    then obtain q where q: "n = 2 * q + 1" by (auto elim: oddE)
    with n have q16: "q < 10 ^ 16" by (intro small_below_pow10) simp
    have "float_str (PyFloat False ?m ?e) = str_nat q @ ''.5''"
      by (rule float_str_halves [OF q16 e]) (use hx q in simp)
    moreover have "exact_half n = str_nat q @ ''.5''" unfolding q by (simp add: exact_half_def)
    moreover have "\<not> endswith (str_nat q @ ''.5'') ''.0''" by (rule endswith_dot_zero(2))
    ultimately show ?thesis unfolding tv n_def [symmetric]
      by simp
  qed
qed

lemma exact_half_ascii: "list_all (\<lambda>c. code_point c < 128) (exact_half n)"
  using decimal_ascii [OF str_nat_decimal, of "n div 2"]
  by (simp add: exact_half_def code_point_def)

lemma calculate_area_exact:
  assumes "h \<noteq> []" and "list_all isdecimal_char h"
    and "w \<noteq> []" and "list_all isdecimal_char w"
    and "digits_value 0 h * digits_value 0 w < 2 ^ 53"
  shows "calculate_area world sock (''calculate-area?height='' @ h @ ''&width='' @ w) =
           ok world sock (exact_half (nat (digits_value 0 h * digits_value 0 w))) []"
proof -
  let ?a = "digits_value 0 h * digits_value 0 w"
  have "0 \<le> ?a"
    using digits_value_nonneg [OF _ assms(2), of 0] digits_value_nonneg [OF _ assms(4), of 0]
    by simp
  from half_area_str [OF this assms(5)] obtain q where
    q: "int_truediv ?a 2 = Inr q"
    and ar: "(if endswith (float_str q) ''.0''
            then take (length (float_str q) - 2) (float_str q) else float_str q)
             = exact_half (nat ?a)" by blast
  define hh where "hh = ''height='' @ h"
  define ww where "ww = ''width='' @ w"
  note p = area_parameters [OF assms(2) assms(4), folded hh_def ww_def]
  have en: "encode (exact_half (nat ?a)) = exact_half (nat ?a)"
    by (rule encode_ascii [OF exact_half_ascii])
  have "calculate_area world sock (''calculate-area?height='' @ h @ ''&width='' @ w) =
          ok world sock (encode (exact_half (nat ?a))) []"
    unfolding calculate_area_def p(1) Let_def
    using decimal_isnumeric [OF assms(1,2)] decimal_isnumeric [OF assms(3,4)]
      py_int_decimal [OF assms(1,2)] py_int_decimal [OF assms(3,4)] q ar
    by (simp add: p(2,3))
  then show ?thesis unfolding en .
qed




lemma decimal_not_slash:
  "list_all isdecimal_char h \<Longrightarrow> CHR ''/'' \<notin> set h"
  by (auto simp: list_all_iff isdecimal_char_def code_point_def)

lemma decimal_last_not:
  assumes "w \<noteq> []" and "list_all isdecimal_char w"
  shows "last w \<noteq> CHR ''/''" and "last w \<noteq> CHR ''t''"
proof -
  from assms have "isdecimal_char (last w)" by (auto simp: list_all_iff)
  then show "last w \<noteq> CHR ''/''" and "last w \<noteq> CHR ''t''"
    by (auto simp: isdecimal_char_def code_point_def)
qed

lemma route_calculate_area:
  assumes "list_all isdecimal_char h" and "w \<noteq> []" and "list_all isdecimal_char w"
  shows "handle_client_request world (''/calculate-area?height='' @ h @ ''&width='' @ w) sock =
           calculate_area world sock (''calculate-area?height='' @ h @ ''&width='' @ w)"
proof -
  define u where "u = ''calculate-area?height='' @ h @ ''&width='' @ w"
  have une: "u \<noteq> []" and hdu: "hd u = CHR ''c''" by (simp_all add: u_def)
  have lastu: "last u = last w" using assms(2) by (simp add: u_def)
  note lw = decimal_last_not [OF assms(2,3)]
  have r: "rev u \<noteq> []" "hd (rev u) = last w" using une lastu by (simp_all add: hd_rev)
  have "dropWhile (\<lambda>c. c = CHR ''/'') (rev u) = rev u"
    by (rule dropWhile_none [OF r(1)]) (use r(2) lw(1) in simp)
  moreover have "dropWhile (\<lambda>c. c = CHR ''/'') u = u"
    by (rule dropWhile_none [OF une]) (use hdu in simp)
  ultimately have strip: "py_strip ''/'' (CHR ''/'' # u) = u"
    by (simp add: py_strip_single)
  have nu: "normalized_url (CHR ''/'' # u) = u"
    using une strip by (simp add: normalized_url_def)
  have "\<not> suffix ''exit'' u"
  proof
    assume "suffix ''exit'' u"
    then obtain v where "u = v @ ''exit''" by (auto simp: suffix_def)
    then have "last u = CHR ''t''" by simp
    with lastu lw(2) show False by simp
  qed
  then have ex: "\<not> endswith u ''exit''" by (simp add: endswith_def)
  have wr: "with_webroot u = ''webroot/'' @ u"
    by (simp add: with_webroot_def startswith_def u_def)
  have rd: "REDIRECTION_DICTIONARY (''webroot/'' @ u) = None"
    by (simp add: REDIRECTION_DICTIONARY_def u_def)
  have "CHR ''/'' \<notin> set u"
    using decimal_not_slash [OF assms(1)] decimal_not_slash [OF assms(3)] by (simp add: u_def)
  then have "py_split ''/'' (''webroot'' @ CHR ''/'' # u) = [''webroot'', u]"
    by (intro py_split_char_once) simp_all
  then have sf: "last (py_split ''/'' (''webroot/'' @ u)) = u" by simp
  have "prefix ''calculate-area'' u" by (simp add: u_def)
  then have ct: "contains ''calculate-area'' u"
    unfolding contains_def by (rule prefix_imp_sublist)
  have "handle_client_request world (CHR ''/'' # u) sock = calculate_area world sock u"
    unfolding handle_client_request_def nu Let_def wr
    using ex rd ct by (simp only: sf if_True if_False not_None_eq simp_thms)
  then show ?thesis by (simp add: u_def)
qed

lemma ok_data:
  "data \<noteq> [] \<Longrightarrow> ok world sock data [] =
     Inr (sendall sock (encode (''HTTP/1.1 200 OK'' @ CRLF @
        get_http_header world (length data) []) @ data), 200)"
  by (simp add: ok_eq)

lemma exact_half_ne: "exact_half n \<noteq> []"
  by (simp add: exact_half_def str_nat_ne)

text \<open>
  C2 (as amended). For non-empty strings of ASCII digits whose product is below
  \<open>2 ^ 53\<close>, the computed endpoint answers 200 with the exact decimal rendering of
  \<open>(height * width) / 2\<close> as body: without fractional part when the quotient is whole,
  with \<open>.5\<close> otherwise. The router hands the target to the endpoint unchanged.
\<close>

theorem computed_area_exact:
  assumes "h \<noteq> []" and "list_all isdecimal_char h"
    and "w \<noteq> []" and "list_all isdecimal_char w"
    and "digits_value 0 h * digits_value 0 w < 2 ^ 53"
  shows "calculate_area world sock (''calculate-area?height='' @ h @ ''&width='' @ w) =
           Inr (sendall sock (encode (''HTTP/1.1 200 OK'' @ CRLF @
                  get_http_header world
                    (length (exact_half (nat (digits_value 0 h * digits_value 0 w)))) []) @
                exact_half (nat (digits_value 0 h * digits_value 0 w))), 200) \<and>
         handle_client_request world (''/calculate-area?height='' @ h @ ''&width='' @ w) sock =
           calculate_area world sock (''calculate-area?height='' @ h @ ''&width='' @ w)"
  using calculate_area_exact [OF assms] route_calculate_area [OF assms(2,3,4)]
    ok_data [OF exact_half_ne]
  by simp

lemma isdecimal_char_digits:
  "isdecimal_char CHR ''0''" "isdecimal_char CHR ''1''" "isdecimal_char CHR ''2''"
  "isdecimal_char CHR ''3''" "isdecimal_char CHR ''4''" "isdecimal_char CHR ''5''"
  "isdecimal_char CHR ''6''" "isdecimal_char CHR ''7''" "isdecimal_char CHR ''8''"
  "isdecimal_char CHR ''9''"
  by (simp_all add: isdecimal_char_def code_point_def)

lemma encode_ok_header:
  "encode (''HTTP/1.1 200 OK'' @ CRLF @ get_http_header bare_host n []) =
     ''HTTP/1.1 200 OK'' @ CRLF @ ''Date: Thu, 01 Jan 2026 00:00:00 GMT'' @ CRLF @
     ''Content-Length: '' @ str_nat n @ CRLF @ ''Content-Type: text/html'' @ CRLF @ CRLF"
proof -
  have "encode (str_nat n) = str_nat n"
    by (rule encode_ascii [OF decimal_ascii [OF str_nat_decimal]])
  moreover have "encode ''HTTP/1.1 200 OK'' = ''HTTP/1.1 200 OK''"
    "encode CRLF = CRLF"
    "encode ''Date: '' = ''Date: ''"
    "encode ''Thu, 01 Jan 2026 00:00:00 GMT'' = ''Thu, 01 Jan 2026 00:00:00 GMT''"
    "encode ''Content-Length: '' = ''Content-Length: ''"
    "encode ''Content-Type: text/html'' = ''Content-Type: text/html''"
    by (rule encode_ascii, simp add: code_point_def CRLF_def)+
  ultimately show ?thesis
    unfolding get_http_header_no_url encode_append by (simp add: bare_host_def)
qed

theorem computed_area_exact_witness:
  "calculate_area bare_host [] ''calculate-area?height=10&width=4'' =
     Inr ([''HTTP/1.1 200 OK'' @ CRLF @ ''Date: Thu, 01 Jan 2026 00:00:00 GMT'' @ CRLF @
           ''Content-Length: 2'' @ CRLF @ ''Content-Type: text/html'' @ CRLF @ CRLF @ ''20''], 200) \<and>
   calculate_area bare_host [] ''calculate-area?height=3&width=3'' =
     Inr ([''HTTP/1.1 200 OK'' @ CRLF @ ''Date: Thu, 01 Jan 2026 00:00:00 GMT'' @ CRLF @
           ''Content-Length: 3'' @ CRLF @ ''Content-Type: text/html'' @ CRLF @ CRLF @ ''4.5''], 200)"
proof -
  have v: "digits_value 0 ''10'' = 10" "digits_value 0 ''4'' = 4" "digits_value 0 ''3'' = 3"
    by (simp_all add: code_point_def)
  have x: "exact_half 40 = ''20''" "exact_half 9 = ''4.5''"
    by (simp_all add: exact_half_def str_nat.simps digit_char_simps)
  have "str_nat 2 = ''2''" "str_nat 3 = ''3''"
    by (simp_all add: str_nat.simps digit_char_simps)
  then have s: "str_nat (Suc (Suc 0)) = ''2''" "str_nat (Suc (Suc (Suc 0))) = ''3''"
    by (simp_all only: numeral_2_eq_2 numeral_3_eq_3)
  have a: "calculate_area bare_host [] ''calculate-area?height=10&width=4'' =
     Inr ([''HTTP/1.1 200 OK'' @ CRLF @ ''Date: Thu, 01 Jan 2026 00:00:00 GMT'' @ CRLF @
           ''Content-Length: 2'' @ CRLF @ ''Content-Type: text/html'' @ CRLF @ CRLF @ ''20''], 200)"
    using computed_area_exact [of "''10''" "''4''" bare_host "[]", unfolded encode_ok_header v]
    by (simp add: x s isdecimal_char_digits sendall_def)
  have b: "calculate_area bare_host [] ''calculate-area?height=3&width=3'' =
     Inr ([''HTTP/1.1 200 OK'' @ CRLF @ ''Date: Thu, 01 Jan 2026 00:00:00 GMT'' @ CRLF @
           ''Content-Length: 3'' @ CRLF @ ''Content-Type: text/html'' @ CRLF @ CRLF @ ''4.5''], 200)"
    using computed_area_exact [of "''3''" "''3''" bare_host "[]", unfolded encode_ok_header v]
    by (simp add: x s isdecimal_char_digits sendall_def)
  from a b show ?thesis by (rule conjI)
qed




lemma shortest_digits_hit:
  "digits_at m e p n = Some d \<Longrightarrow> shortest_digits m e p n (Suc fuel) = (d, p - int n)"
  by simp

lemma truediv_1e16: "int_truediv 20000000000000000 2 = Inr (PyFloat False 5000000000000000 1)"
proof -
  have bl: "bit_length 20000000000000000 = 55" by (simp add: bit_length.simps)
  have be: "binary_exponent 20000000000000000 2 = 53"
    using binary_exponent_two [of 20000000000000000] by (simp add: bl)
  have r: "round_half_even 20000000000000000 4 = 5000000000000000"
    by (simp add: round_half_even_def)
  show ?thesis by (simp add: int_truediv_def be r)
qed

lemma str_1e16: "float_str (PyFloat False 5000000000000000 1) = ''1e+16''"
proof -
  have x: "rat_of_nat 5000000000000000 * pow2 1 = 10000000000000000" by (simp add: pow2_def)
  have l: "str_nat 10000000000000000 = ''10000000000000000''"
    by (simp add: str_nat.simps digit_char_simps)
  have p: "decimal_point (rat_of_nat 5000000000000000 * pow2 1) = 17"
    unfolding x by (simp add: decimal_point_def l)
  have s: "pow10 (17 - int 1) = 10000000000000000" by (simp add: pow10_def)
  have r1: "rounds_to 5000000000000000 1 (rat_of_nat 1 * 10000000000000000)"
    by (simp add: rounds_to_def pow2_def)
  have r2: "\<not> rounds_to 5000000000000000 1 (rat_of_nat 2 * 10000000000000000)"
    by (simp add: rounds_to_def pow2_def)
  have d: "digits_at 5000000000000000 1 17 1 = Some 1"
    unfolding digits_at_def Let_def s x using r1 r2 by simp
  have sd: "shortest_digits 5000000000000000 1 17 1 17 = (1, 16)"
    using shortest_digits_hit [OF d, of 16] by simp
  have one: "str_nat 1 = ''1''" and sixteen: "str_nat 16 = ''16''"
    by (simp_all add: str_nat.simps digit_char_simps)
  have f: "format_repr ''1'' 17 = ''1e+16''"
    by (simp add: format_repr_def strip_zeros_def sixteen)
  have "shortest_digits 5000000000000000 1
          (decimal_point (rat_of_nat 5000000000000000 * pow2 1)) 1 17 = (1, 16)"
    unfolding p by (rule sd)
  then have "float_str (PyFloat False 5000000000000000 1) =
          format_repr (str_nat 1) (int (length (str_nat 1)) + 16)"
    by (intro float_str_unfold) simp_all
  then show ?thesis unfolding one using f by simp
qed

text \<open>
  C2 as stated fails for large values: for height \<open>10000000000000000\<close> and width
  \<open>2\<close>, both strings of decimal digits, the body is \<open>1e+16\<close>, not the exact
  rendering \<open>10000000000000000\<close> of the quotient.
\<close>

theorem computed_area_1e16:
  "calculate_area bare_host [] ''calculate-area?height=10000000000000000&width=2'' =
     Inr ([''HTTP/1.1 200 OK'' @ CRLF @ ''Date: Thu, 01 Jan 2026 00:00:00 GMT'' @ CRLF @
           ''Content-Length: 5'' @ CRLF @ ''Content-Type: text/html'' @ CRLF @ CRLF @ ''1e+16''], 200) \<and>
   list_all isdecimal_char ''10000000000000000'' \<and> list_all isdecimal_char ''2'' \<and>
   exact_half (nat (digits_value 0 ''10000000000000000'' * digits_value 0 ''2'')) =
     ''10000000000000000''"
proof -
  have dg: "list_all isdecimal_char ''10000000000000000''" "list_all isdecimal_char ''2''"
    by (simp_all add: isdecimal_char_digits)
  have v: "digits_value 0 ''10000000000000000'' = 10000000000000000" "digits_value 0 ''2'' = 2"
    by (simp_all add: code_point_def)
  have pi: "py_int ''10000000000000000'' = Inr 10000000000000000" "py_int ''2'' = Inr 2"
    using py_int_decimal [OF _ dg(1)] py_int_decimal [OF _ dg(2)] unfolding v by simp_all
  have nu: "isnumeric ''10000000000000000''" "isnumeric ''2''"
    using decimal_isnumeric [OF _ dg(1)] decimal_isnumeric [OF _ dg(2)] by simp_all
  have en: "encode ''1e+16'' = ''1e+16''"
    by (rule encode_ascii) (simp add: code_point_def)
  have five: "str_nat 5 = ''5''" by (simp add: str_nat.simps digit_char_simps)
  have ne: "\<not> endswith ''1e+16'' ''.0''" by (simp add: endswith_def suffix_to_prefix)
  have "calculate_area bare_host [] ''calculate-area?height=10000000000000000&width=2'' =
        ok bare_host [] ''1e+16'' []"
    unfolding calculate_area_def Let_def
    using nu pi truediv_1e16 str_1e16 ne en by (simp add: py_split_def)
  also have "\<dots> = Inr (sendall [] (encode (''HTTP/1.1 200 OK'' @ CRLF @
        get_http_header bare_host (length ''1e+16'') []) @ ''1e+16''), 200)"
    by (rule ok_data) simp
  finally have "calculate_area bare_host [] ''calculate-area?height=10000000000000000&width=2'' =
      Inr (sendall [] (encode (''HTTP/1.1 200 OK'' @ CRLF @
        get_http_header bare_host (length ''1e+16'') []) @ ''1e+16''), 200)" .
  moreover have len: "length ''1e+16'' = 5" by simp
  ultimately have a: "calculate_area bare_host [] ''calculate-area?height=10000000000000000&width=2'' =
     Inr ([''HTTP/1.1 200 OK'' @ CRLF @ ''Date: Thu, 01 Jan 2026 00:00:00 GMT'' @ CRLF @
           ''Content-Length: 5'' @ CRLF @ ''Content-Type: text/html'' @ CRLF @ CRLF @ ''1e+16''], 200)"
    unfolding len encode_ok_header five by (simp add: sendall_def)
  have x: "exact_half (nat (digits_value 0 ''10000000000000000'' * digits_value 0 ''2'')) =
     ''10000000000000000''"
    unfolding v by (simp add: exact_half_def str_nat.simps digit_char_simps)
  from a dg x show ?thesis by simp
qed


section \<open>Responses\<close>


text \<open>
  C5. A height of superscript two (U+00B2) passes \<open>isnumeric\<close>, \<open>int\<close> then raises
  ValueError: no response is sent, and the exception leaves \<open>handle_client_request\<close>.
\<close>

theorem superscript_two_raises:
  "isnumeric [CHR 0xB2] \<and> py_int [CHR 0xB2] = Inl ValueError \<and>
   handle_client_request bare_host (''/calculate-area?height='' @ [CHR 0xB2] @ ''&width=2'') [] =
     Inl ValueError"
proof -
  have n: "isnumeric [CHR 0xB2]" "isnumeric ''2''"
    by (simp_all add: isnumeric_def isnumeric_char_def code_point_def)
  have i: "py_int [CHR 0xB2] = Inl ValueError"
    by (simp add: py_int_def int_space_def isdecimal_char_def code_point_def)
  have c: "calculate_area bare_host [] (''calculate-area?height='' @ [CHR 0xB2] @ ''&width=2'') =
     Inl ValueError"
    unfolding calculate_area_def Let_def using n i by (simp add: py_split_def)
  have "handle_client_request bare_host (''/calculate-area?height='' @ [CHR 0xB2] @ ''&width=2'') [] =
     calculate_area bare_host [] (''calculate-area?height='' @ [CHR 0xB2] @ ''&width=2'')"
    by (simp add: handle_client_request_def normalized_url_def py_strip_def endswith_def
        suffix_to_prefix with_webroot_def startswith_def REDIRECTION_DICTIONARY_def
        py_split_def contains_def sublist_code)
  with n i c show ?thesis by simp
qed














text \<open>
  C10. Every 200 response of the computed endpoint carries \<open>Content-Type: text/html\<close>:
  its header is the status line, Date, Content-Length and that Content-Type line.
\<close>

theorem computed_result_content_type:
  assumes "calculate_area world sock request = Inr (sock', 200)"
  shows "\<exists>body. sock' = sendall sock
           (encode (''HTTP/1.1 200 OK'' @ CRLF @ ''Date: '' @ now world @ CRLF @
                    ''Content-Length: '' @ str_nat (length body) @ CRLF @
                    ''Content-Type: text/html'' @ CRLF @ CRLF) @ body)"
proof -
  have "\<exists>d. ok world sock d [] = Inr (sock', 200)"
    using assms unfolding calculate_area_def Let_def internal_server_error_eq
    by (auto split: sum.splits if_splits)
  then obtain d where "ok world sock d [] = Inr (sock', 200)" ..
  then have "sock' = sendall sock (encode (''HTTP/1.1 200 OK'' @ CRLF @
           get_http_header world (length d) []) @ d)"
    unfolding ok_eq by simp
  then show ?thesis unfolding get_http_header_no_url by (intro exI [of _ d]) simp
qed




lemma area_3_3:
  "calculate_area bare_host [] ''calculate-area?height=3&width=3'' =
     Inr ([''HTTP/1.1 200 OK'' @ CRLF @ ''Date: Thu, 01 Jan 2026 00:00:00 GMT'' @ CRLF @
           ''Content-Length: 3'' @ CRLF @ ''Content-Type: text/html'' @ CRLF @ CRLF @ ''4.5''], 200)"
proof -
  have v: "digits_value 0 ''3'' = 3" by (simp add: code_point_def)
  have x: "exact_half 9 = ''4.5''"
    by (simp add: exact_half_def str_nat.simps digit_char_simps)
  have l: "length ''4.5'' = 3" by simp
  have t: "str_nat 3 = ''3''" by (simp add: str_nat.simps digit_char_simps)
  have "calculate_area bare_host [] (''calculate-area?height='' @ ''3'' @ ''&width='' @ ''3'') =
          ok bare_host [] (exact_half (nat (digits_value 0 ''3'' * digits_value 0 ''3''))) []"
    by (rule calculate_area_exact) (simp_all add: isdecimal_char_digits code_point_def)
  also have "\<dots> = ok bare_host [] ''4.5'' []" unfolding v using x by simp
  also have "\<dots> = Inr (sendall [] (encode (''HTTP/1.1 200 OK'' @ CRLF @
        get_http_header bare_host (length ''4.5'') []) @ ''4.5''), 200)"
    by (rule ok_data) simp
  finally show ?thesis unfolding l encode_ok_header t by (simp add: sendall_def)
qed

theorem computed_result_content_type_witness:
  "calculate_area bare_host [] ''calculate-area?height=3&width=3'' =
     Inr ([''HTTP/1.1 200 OK'' @ CRLF @ ''Date: Thu, 01 Jan 2026 00:00:00 GMT'' @ CRLF @
           ''Content-Length: 3'' @ CRLF @ ''Content-Type: text/html'' @ CRLF @ CRLF @ ''4.5''], 200) \<and>
   (\<exists>body. [''HTTP/1.1 200 OK'' @ CRLF @ ''Date: Thu, 01 Jan 2026 00:00:00 GMT'' @ CRLF @
           ''Content-Length: 3'' @ CRLF @ ''Content-Type: text/html'' @ CRLF @ CRLF @ ''4.5''] =
      sendall []
        (encode (''HTTP/1.1 200 OK'' @ CRLF @ ''Date: '' @ now bare_host @ CRLF @
                 ''Content-Length: '' @ str_nat (length body) @ CRLF @
                 ''Content-Type: text/html'' @ CRLF @ CRLF) @ body))"
  using area_3_3 computed_result_content_type [OF area_3_3] by (rule conjI)




end
